theory Spec2Isabelle
  imports Main
begin

section \<open>Wall-clock time and text formatting used by the logger\<close>

text \<open>
  The logger reads the clock with \<^verbatim>\<open>time.Now()\<close> and uses the civil fields of the
  reading (\<^verbatim>\<open>Year()\<close>, \<^verbatim>\<open>Month()\<close>, \<^verbatim>\<open>Day()\<close>, \<^verbatim>\<open>Hour()\<close>, ...) and its
  \<^verbatim>\<open>Location()\<close>. A reading is modelled by its civil fields; the location is a fixed
  offset from UTC, in seconds east (locations whose offset changes during the year are
  outside this model).
\<close>

record Time =
  Year :: int
  Month :: int
  Day :: int
  Hour :: int
  Minute :: int
  Second :: int
  Nanosecond :: int
  Location :: int

text \<open>A reading whose civil fields are in the ranges the Go accessors return, with a
  year that the layout \<^verbatim>\<open>2006\<close> prints with four digits.\<close>

definition valid_Time :: "Time \<Rightarrow> bool" where
  "valid_Time t \<longleftrightarrow>
     0 \<le> Year t \<and> Year t \<le> 9999 \<and> 1 \<le> Month t \<and> Month t \<le> 12 \<and>
     1 \<le> Day t \<and> Day t \<le> 31 \<and> 0 \<le> Hour t \<and> Hour t \<le> 23 \<and>
     0 \<le> Minute t \<and> Minute t \<le> 59 \<and> 0 \<le> Second t \<and> Second t \<le> 59 \<and>
     0 \<le> Nanosecond t \<and> Nanosecond t \<le> 999999999"

subsection \<open>Decimal formatting\<close>

definition digit :: "nat \<Rightarrow> char" where
  "digit d = char_of (48 + d)"

fun itoa :: "nat \<Rightarrow> string" where
  "itoa n = (if n < 10 then [digit n] else itoa (n div 10) @ [digit (n mod 10)])"

declare itoa.simps [simp del]

text \<open>\<^verbatim>\<open>appendInt(b, x, width)\<close> of package time: a minus sign for a negative number,
  then the decimal digits, padded with zeros on the left to \<open>width\<close> digits.\<close>

definition appendInt :: "int \<Rightarrow> nat \<Rightarrow> string" where
  "appendInt x width =
     (let ds = itoa (nat \<bar>x\<bar>)
      in (if x < 0 then ''-'' else '''') @ replicate (width - length ds) (CHR ''0'') @ ds)"

text \<open>\<^verbatim>\<open>fmt.Sprintf("%02d", x)\<close>: the whole field, sign included, is padded with zeros
  to width 2.\<close>

definition Sprintf_02d :: "int \<Rightarrow> string" where
  "Sprintf_02d x =
     (let ds = itoa (nat \<bar>x\<bar>)
      in if x < 0 then ''-'' @ replicate (1 - length ds) (CHR ''0'') @ ds
         else replicate (2 - length ds) (CHR ''0'') @ ds)"

text \<open>\<^verbatim>\<open>now.Format("2006-01")\<close> and \<^verbatim>\<open>now.Format("2006-01-02")\<close>.\<close>

definition Format_2006_01 :: "Time \<Rightarrow> string" where
  "Format_2006_01 t = appendInt (Year t) 4 @ ''-'' @ appendInt (Month t) 2"

definition Format_2006_01_02 :: "Time \<Rightarrow> string" where
  "Format_2006_01_02 t =
     appendInt (Year t) 4 @ ''-'' @ appendInt (Month t) 2 @ ''-'' @ appendInt (Day t) 2"

subsection \<open>Instants and durations\<close>

text \<open>
  An instant is a number of nanoseconds since the Unix epoch; a \<^verbatim>\<open>time.Duration\<close> is a
  64-bit count of nanoseconds. \<^verbatim>\<open>time.Date\<close> normalises fields that are out of range
  by carrying into the next larger field, which on the count of nanoseconds is plain
  linear arithmetic; only the month needs an explicit carry into the year.
\<close>

type_synonym Duration = int

definition time_Second :: Duration where
  "time_Second = 1000000000"

definition time_Hour :: Duration where
  "time_Hour = 3600 * time_Second"

definition maxDuration :: Duration where
  "maxDuration = 2 ^ 63 - 1"

definition minDuration :: Duration where
  "minDuration = - (2 ^ 63)"

definition isLeap :: "int \<Rightarrow> bool" where
  "isLeap y \<longleftrightarrow> y mod 4 = 0 \<and> (y mod 100 \<noteq> 0 \<or> y mod 400 = 0)"

definition daysBefore :: "int list" where
  "daysBefore = [0, 31, 59, 90, 120, 151, 181, 212, 243, 273, 304, 334, 365]"

definition daysSinceEpoch :: "int \<Rightarrow> int" where
  "daysSinceEpoch y =
     365 * (y - 1) + (y - 1) div 4 - (y - 1) div 100 + (y - 1) div 400 - 719162"

definition Date :: "int \<Rightarrow> int \<Rightarrow> int \<Rightarrow> int \<Rightarrow> int \<Rightarrow> int \<Rightarrow> int \<Rightarrow> int \<Rightarrow> int" where
  "Date year month day hour minute sec nsec loc =
     (let y = year + (month - 1) div 12;
          m = (month - 1) mod 12;
          d = daysSinceEpoch y + daysBefore ! nat m
              + (if isLeap y \<and> 2 \<le> m then 1 else 0) + (day - 1)
      in (d * 86400 + hour * 3600 + minute * 60 + sec - loc) * 1000000000 + nsec)"

text \<open>The instant a clock reading stands for.\<close>

definition instant :: "Time \<Rightarrow> int" where
  "instant t =
     Date (Year t) (Month t) (Day t) (Hour t) (Minute t) (Second t) (Nanosecond t) (Location t)"

definition Add :: "int \<Rightarrow> Duration \<Rightarrow> int" where
  "Add t d = t + d"

text \<open>\<^verbatim>\<open>t.Sub(u)\<close> saturates at the largest and smallest duration.\<close>

definition Sub :: "int \<Rightarrow> int \<Rightarrow> Duration" where
  "Sub t u = (if t - u > maxDuration then maxDuration
              else if t - u < minDuration then minDuration else t - u)"

section \<open>The collaborators: file system, buffered writer, compressor, encoder\<close>

type_synonym bytes = string

datatype error =
    ErrNotExist
  | ErrExist
  | ErrIsDir
  | ErrClosed
  | ErrOS string
  | ErrMarshal string

fun Error :: "error \<Rightarrow> string" where
  "Error ErrNotExist = ''no such file or directory''"
| "Error ErrExist = ''file exists''"
| "Error ErrIsDir = ''is a directory''"
| "Error ErrClosed = ''file already closed''"
| "Error (ErrOS m) = m"
| "Error (ErrMarshal m) = m"

subsection \<open>File system\<close>

text \<open>
  The file system is a capability with four operations: inspect a path, create a
  directory, open a file for appending (creating it when absent), and write to or close
  an open file. Paths are kept as the strings the program passes. An open
  \<^verbatim>\<open>*os.File\<close> is a descriptor number; two descriptors opened on one path share the
  file's content. Each operation can also be made to fail by the environment: the
  \<open>*_fault\<close> fields hold the error the next calls of that operation return.
\<close>

record FS =
  dirs :: "string set"
  files :: "string \<rightharpoonup> bytes"
  fds :: "nat \<rightharpoonup> string"
  next_fd :: nat
  stat_fault :: "error option"
  mkdir_fault :: "error option"
  open_fault :: "error option"
  write_fault :: "error option"
  close_fault :: "error option"

text \<open>\<^verbatim>\<open>os.Stat(p)\<close>: only the error is used by the logger.\<close>

definition os_Stat :: "FS \<Rightarrow> string \<Rightarrow> error option" where
  "os_Stat fs p =
     (case stat_fault fs of
        Some e \<Rightarrow> Some e
      | None \<Rightarrow> if p \<in> dirs fs \<or> p \<in> dom (files fs) then None else Some ErrNotExist)"

definition IsNotExist :: "error \<Rightarrow> bool" where
  "IsNotExist e \<longleftrightarrow> e = ErrNotExist"

text \<open>\<^verbatim>\<open>os.Mkdir(p, 0755)\<close>.\<close>

definition os_Mkdir :: "FS \<Rightarrow> string \<Rightarrow> FS \<times> error option" where
  "os_Mkdir fs p =
     (case mkdir_fault fs of
        Some e \<Rightarrow> (fs, Some e)
      | None \<Rightarrow>
          if p = [] then (fs, Some ErrNotExist)
          else if p \<in> dirs fs \<or> p \<in> dom (files fs) then (fs, Some ErrExist)
          else (fs\<lparr>dirs := insert p (dirs fs)\<rparr>, None))"

text \<open>\<^verbatim>\<open>os.OpenFile(p, os.O_WRONLY|os.O_CREATE|os.O_APPEND, 0755)\<close>: the file is created
  empty when it does not exist, and an existing file keeps its content.\<close>

definition os_OpenFile :: "FS \<Rightarrow> string \<Rightarrow> FS \<times> (error + nat)" where
  "os_OpenFile fs p =
     (case open_fault fs of
        Some e \<Rightarrow> (fs, Inl e)
      | None \<Rightarrow>
          if p = [] then (fs, Inl ErrNotExist)
          else if p \<in> dirs fs then (fs, Inl ErrIsDir)
          else (fs\<lparr>files := (case files fs p of
                                 None \<Rightarrow> (files fs)(p \<mapsto> [])
                               | Some c \<Rightarrow> files fs),
                    fds := (fds fs)(next_fd fs \<mapsto> p),
                    next_fd := Suc (next_fd fs)\<rparr>,
                Inr (next_fd fs)))"

text \<open>\<^verbatim>\<open>file.Write(data)\<close> on a descriptor opened with \<^verbatim>\<open>O_APPEND\<close>: the bytes go to
  the end of the file. A failing write writes nothing.\<close>

definition File_Write :: "FS \<Rightarrow> nat \<Rightarrow> bytes \<Rightarrow> FS \<times> error option" where
  "File_Write fs fd d =
     (case fds fs fd of
        None \<Rightarrow> (fs, Some ErrClosed)
      | Some p \<Rightarrow>
          (case write_fault fs of
             Some e \<Rightarrow> (fs, Some e)
           | None \<Rightarrow>
               (fs\<lparr>files := (files fs)(p \<mapsto> (case files fs p of None \<Rightarrow> [] | Some c \<Rightarrow> c) @ d)\<rparr>,
                None)))"

text \<open>\<^verbatim>\<open>file.Close()\<close>: the descriptor is released even when the call reports an
  error.\<close>

definition File_Close :: "FS \<Rightarrow> nat \<Rightarrow> FS \<times> error option" where
  "File_Close fs fd =
     (case fds fs fd of
        None \<Rightarrow> (fs, Some ErrClosed)
      | Some p \<Rightarrow> (fs\<lparr>fds := (fds fs)(fd := None)\<rparr>, close_fault fs))"

subsection \<open>\<^verbatim>\<open>bufio.Writer\<close>\<close>

text \<open>\<^verbatim>\<open>bufio.NewWriter(file)\<close> has a buffer of 4096 bytes and remembers the first
  error of the underlying file: every later call returns it.\<close>

record Writer =
  wr :: nat
  buf :: bytes
  err :: "error option"

definition defaultBufSize :: nat where
  "defaultBufSize = 4096"

definition NewWriter :: "nat \<Rightarrow> Writer" where
  "NewWriter fd = \<lparr>wr = fd, buf = [], err = None\<rparr>"

definition Available :: "Writer \<Rightarrow> nat" where
  "Available b = defaultBufSize - length (buf b)"

definition bufio_Flush :: "Writer \<Rightarrow> FS \<Rightarrow> Writer \<times> FS \<times> error option" where
  "bufio_Flush b fs =
     (case err b of
        Some e \<Rightarrow> (b, fs, Some e)
      | None \<Rightarrow>
          if buf b = [] then (b, fs, None)
          else (case File_Write fs (wr b) (buf b) of
                  (fs', Some e) \<Rightarrow> (b\<lparr>err := Some e\<rparr>, fs', Some e)
                | (fs', None) \<Rightarrow> (b\<lparr>buf := []\<rparr>, fs', None)))"

text \<open>The loop of \<^verbatim>\<open>bufio.Writer.Write\<close>: while the data does not fit, either write it
  straight to the file (empty buffer) or fill the buffer and flush it.\<close>

function bufio_Write_loop :: "Writer \<Rightarrow> bytes \<Rightarrow> FS \<Rightarrow> Writer \<times> bytes \<times> FS" where
  "bufio_Write_loop b p fs =
     (if length p > Available b \<and> err b = None then
        (if buf b = [] then
           (case File_Write fs (wr b) p of
              (fs', Some e) \<Rightarrow> bufio_Write_loop (b\<lparr>err := Some e\<rparr>) p fs'
            | (fs', None) \<Rightarrow> bufio_Write_loop b [] fs')
         else
           (case bufio_Flush (b\<lparr>buf := buf b @ take (Available b) p\<rparr>) fs of
              (b', fs', _) \<Rightarrow> bufio_Write_loop b' (drop (Available b) p) fs'))
      else (b, p, fs))"
  by pat_completeness auto
termination
  apply (relation "measure (\<lambda>(b, p, fs).
         if err b = None then 2 * length p + (if buf b = [] then 1 else 2) else 0)")
     apply simp
    apply simp
   apply (auto split: if_splits)[1]
  apply (auto simp: bufio_Flush_def split: option.splits if_splits prod.splits)
  done

declare bufio_Write_loop.simps [simp del]

definition bufio_Write :: "Writer \<Rightarrow> bytes \<Rightarrow> FS \<Rightarrow> Writer \<times> FS \<times> error option" where
  "bufio_Write b p fs =
     (case bufio_Write_loop b p fs of
        (b', p', fs') \<Rightarrow>
          (case err b' of
             Some e \<Rightarrow> (b', fs', Some e)
           | None \<Rightarrow> (b'\<lparr>buf := buf b' @ p'\<rparr>, fs', None)))"

subsection \<open>Serializer and compressor\<close>

text \<open>
  The record encoding and the compression codec are collaborators of the logger, not part
  of it. They are parameters of the model: \<open>marshal\<close> is the JSON text of a record or
  the error \<^verbatim>\<open>json.Marshal\<close> reports; the compressor is a state machine that, for each
  \<^verbatim>\<open>Write\<close> and each \<^verbatim>\<open>Flush\<close>, says which chunks of bytes (header, compressed
  blocks) it passes to the writer underneath, in order.
\<close>

record ('r, 'z) lib =
  marshal :: "'r \<Rightarrow> error + bytes"
  gz_new :: 'z
  gz_write :: "'z \<Rightarrow> bytes \<Rightarrow> 'z \<times> bytes list"
  gz_flush :: "'z \<Rightarrow> 'z \<times> bytes list"

fun write_chunks :: "Writer \<Rightarrow> bytes list \<Rightarrow> FS \<Rightarrow> Writer \<times> FS \<times> error option" where
  "write_chunks b [] fs = (b, fs, None)"
| "write_chunks b (c # cs) fs =
     (case bufio_Write b c fs of
        (b', fs', Some e) \<Rightarrow> (b', fs', Some e)
      | (b', fs', None) \<Rightarrow> write_chunks b' cs fs')"

text \<open>\<^verbatim>\<open>gzip.NewWriterLevel(w, 9)\<close>: the compressor writes into \<open>w\<close>, here always a
  \<^verbatim>\<open>bufio.Writer\<close>, and never flushes \<open>w\<close> itself.\<close>

record 'z gzipWriter =
  gzw :: Writer
  gzst :: 'z
  gzerr :: "error option"

definition NewWriterLevel :: "('r, 'z) lib \<Rightarrow> Writer \<Rightarrow> 'z gzipWriter" where
  "NewWriterLevel lb w = \<lparr>gzw = w, gzst = gz_new lb, gzerr = None\<rparr>"

definition gzip_Write ::
  "('r, 'z) lib \<Rightarrow> 'z gzipWriter \<Rightarrow> bytes \<Rightarrow> FS \<Rightarrow> 'z gzipWriter \<times> FS \<times> error option" where
  "gzip_Write lb g p fs =
     (case gzerr g of
        Some e \<Rightarrow> (g, fs, Some e)
      | None \<Rightarrow>
          (case gz_write lb (gzst g) p of
             (z', cs) \<Rightarrow>
               (case write_chunks (gzw g) cs fs of
                  (b', fs', r) \<Rightarrow> (g\<lparr>gzw := b', gzst := z', gzerr := r\<rparr>, fs', r))))"

definition gzip_Flush ::
  "('r, 'z) lib \<Rightarrow> 'z gzipWriter \<Rightarrow> FS \<Rightarrow> 'z gzipWriter \<times> FS \<times> error option" where
  "gzip_Flush lb g fs =
     (case gzerr g of
        Some e \<Rightarrow> (g, fs, Some e)
      | None \<Rightarrow>
          (case gz_flush lb (gzst g) of
             (z', cs) \<Rightarrow>
               (case write_chunks (gzw g) cs fs of
                  (b', fs', r) \<Rightarrow> (g\<lparr>gzw := b', gzst := z', gzerr := r\<rparr>, fs', r))))"

text \<open>The interface \<^verbatim>\<open>flushWriter\<close> has two implementations in the logger.\<close>

datatype 'z flushWriter = Bufio Writer | Gzip "'z gzipWriter"

fun fw_Write ::
  "('r, 'z) lib \<Rightarrow> 'z flushWriter \<Rightarrow> bytes \<Rightarrow> FS \<Rightarrow> 'z flushWriter \<times> FS \<times> error option" where
  "fw_Write lb (Bufio b) p fs =
     (case bufio_Write b p fs of (b', fs', r) \<Rightarrow> (Bufio b', fs', r))"
| "fw_Write lb (Gzip g) p fs =
     (case gzip_Write lb g p fs of (g', fs', r) \<Rightarrow> (Gzip g', fs', r))"

fun fw_Flush ::
  "('r, 'z) lib \<Rightarrow> 'z flushWriter \<Rightarrow> FS \<Rightarrow> 'z flushWriter \<times> FS \<times> error option" where
  "fw_Flush lb (Bufio b) fs =
     (case bufio_Flush b fs of (b', fs', r) \<Rightarrow> (Bufio b', fs', r))"
| "fw_Flush lb (Gzip g) fs =
     (case gzip_Flush lb g fs of (g', fs', r) \<Rightarrow> (Gzip g', fs', r))"

section \<open>The logger\<close>

type_synonym SwitchMode = int

definition SWITCH_BY_DAY :: SwitchMode where
  "SWITCH_BY_DAY = 1"

definition SWITCH_BY_HOURS :: SwitchMode where
  "SWITCH_BY_HOURS = 2"

text \<open>A buffered channel: \<^verbatim>\<open>make(chan M, 1000)\<close> has capacity 1000.\<close>

record 'a chan =
  cap :: nat
  queue :: "'a list"

text \<open>
  The fields \<^verbatim>\<open>file\<close>, \<^verbatim>\<open>out\<close> and \<^verbatim>\<open>encoder\<close> of \<^verbatim>\<open>L\<close> are assigned together, at
  the end of \<^verbatim>\<open>switchFile\<close>, and are \<^verbatim>\<open>nil\<close> together before its first call: they are
  the option \<open>ws\<close> (\<open>file_fd\<close> is the field \<^verbatim>\<open>file\<close>). The encoder writes into \<^verbatim>\<open>out\<close> (the same object), so what is left
  of it is \<^verbatim>\<open>enc.err\<close>, the write error a \<^verbatim>\<open>json.Encoder\<close> remembers. The channel
  \<^verbatim>\<open>closeChan\<close> never carries a value; it is \<open>True\<close> once closed.
\<close>

record 'z WriterState =
  file_fd :: nat
  out :: "'z flushWriter"
  encoder :: "error option"

record ('r, 'z) L =
  dir :: string
  logChan :: "'r chan"
  closeChan :: bool
  closeWait :: nat
  ws :: "'z WriterState option"

text \<open>\<^verbatim>\<open>logger.encoder.Encode(r)\<close>: marshal, append a newline, write to \<^verbatim>\<open>out\<close>.\<close>

definition Encode ::
  "('r, 'z) lib \<Rightarrow> 'z WriterState \<Rightarrow> 'r \<Rightarrow> FS \<Rightarrow> 'z WriterState \<times> FS \<times> error option" where
  "Encode lb s r fs =
     (case encoder s of
        Some e \<Rightarrow> (s, fs, Some e)
      | None \<Rightarrow>
          (case marshal lb r of
             Inl e \<Rightarrow> (s, fs, Some e)
           | Inr b \<Rightarrow>
               (case fw_Write lb (out s) (b @ [CHR 0x0A]) fs of
                  (o', fs', x) \<Rightarrow> (s\<lparr>out := o', encoder := x\<rparr>, fs', x))))"

subsection \<open>\<^verbatim>\<open>switchFile\<close>\<close>

definition switchNames :: "string \<Rightarrow> SwitchMode \<Rightarrow> string \<Rightarrow> Time \<Rightarrow> string \<times> string" where
  "switchNames d switchMode fileType now =
     (if switchMode = SWITCH_BY_DAY then
        (let dirName = d @ ''/'' @ Format_2006_01 now @ ''/''
         in (dirName, dirName @ Sprintf_02d (Day now) @ fileType))
      else if switchMode = SWITCH_BY_HOURS then
        (let dirName = d @ ''/'' @ Format_2006_01_02 now @ ''/''
         in (dirName, dirName @ Sprintf_02d (Hour now) @ fileType))
      else ([], []))"

text \<open>The block "stat the directory; if it does not exist, create it", which
  \<^verbatim>\<open>New\<close> and \<^verbatim>\<open>switchFile\<close> both contain.\<close>

definition statOrMkdir :: "FS \<Rightarrow> string \<Rightarrow> FS \<times> error option" where
  "statOrMkdir fs d =
     (case os_Stat fs d of
        None \<Rightarrow> (fs, None)
      | Some e \<Rightarrow> if IsNotExist e then os_Mkdir fs d else (fs, Some e))"

definition switchFile ::
  "('r, 'z) lib \<Rightarrow> Time \<Rightarrow> SwitchMode \<Rightarrow> string \<Rightarrow> bool \<Rightarrow> ('r, 'z) L \<Rightarrow> FS
     \<Rightarrow> ('r, 'z) L \<times> FS \<times> error option" where
  "switchFile lb now switchMode fileType compress lg fs =
     (case switchNames (dir lg) switchMode fileType now of
        (dirName, fileName) \<Rightarrow>
     (case statOrMkdir fs dirName of
        (fs1, Some e) \<Rightarrow> (lg, fs1, Some e)
      | (fs1, None) \<Rightarrow>
     (case os_OpenFile fs1 fileName of
        (fs2, Inl e) \<Rightarrow> (lg, fs2, Some e)
      | (fs2, Inr fd) \<Rightarrow>
     (let new = \<lparr>file_fd = fd,
                 out = (if compress then Gzip (NewWriterLevel lb (NewWriter fd))
                        else Bufio (NewWriter fd)),
                 encoder = None\<rparr>
      in case ws lg of
           None \<Rightarrow> (lg\<lparr>ws := Some new\<rparr>, fs2, None)
         | Some old \<Rightarrow>
             (case fw_Flush lb (out old) fs2 of
                (o', fs3, Some e) \<Rightarrow> (lg\<lparr>ws := Some (old\<lparr>out := o'\<rparr>)\<rparr>, fs3, Some e)
              | (o', fs3, None) \<Rightarrow>
                  (case File_Close fs3 (file_fd old) of
                     (fs4, Some e) \<Rightarrow> (lg\<lparr>ws := Some (old\<lparr>out := o'\<rparr>)\<rparr>, fs4, Some e)
                   | (fs4, None) \<Rightarrow> (lg\<lparr>ws := Some new\<rparr>, fs4, None)))))))"

subsection \<open>\<^verbatim>\<open>New\<close> and the worker goroutine\<close>

text \<open>
  The state of the running program: the file system, the lines printed with
  \<^verbatim>\<open>log.Println\<close> (the diagnostic sink), the logger, and what the goroutine holds:
  the arguments it closed over, its rotation timer (how long it was armed for; \<open>None\<close> is
  the \<^verbatim>\<open>nil\<close> timer left by a switch mode that is neither constant) and whether it
  is still running.
\<close>

record ('r, 'z) World =
  fsys :: FS
  diag :: "string list"
  logger :: "('r, 'z) L"
  w_switchMode :: SwitchMode
  w_fileType :: string
  w_compress :: bool
  fileTimer :: "Duration option"
  running :: bool

text \<open>The duration of the first rotation timer, from the clock reading the goroutine
  takes when it starts.\<close>

definition firstTimer :: "SwitchMode \<Rightarrow> Time \<Rightarrow> Duration option" where
  "firstTimer switchMode now =
     (if switchMode = SWITCH_BY_DAY then
        Some (Sub (Add (Date (Year now) (Month now) (Day now) 0 0 0 0 (Location now))
                       (24 * time_Hour))
                  (instant now))
      else if switchMode = SWITCH_BY_HOURS then
        Some (Sub (Add (Date (Year now) (Month now) (Day now) (Hour now) 0 0 0 (Location now))
                       time_Hour)
                  (instant now))
      else None)"

text \<open>The duration the timer is armed for again after a rotation.\<close>

definition nextTimer :: "SwitchMode \<Rightarrow> Duration option \<Rightarrow> Duration option" where
  "nextTimer switchMode old =
     (if switchMode = SWITCH_BY_DAY then Some (24 * time_Hour)
      else if switchMode = SWITCH_BY_HOURS then Some time_Hour
      else old)"

text \<open>The first statement of \<^verbatim>\<open>New\<close> after the directory check: with compression
  the file type gets the extension \<^verbatim>\<open>.gz\<close>.\<close>

definition gzFileType :: "bool \<Rightarrow> string \<Rightarrow> string" where
  "gzFileType compress fileType = (if compress then fileType @ ''.gz'' else fileType)"

text \<open>\<^verbatim>\<open>New\<close> reads the clock twice: \<open>now1\<close> inside \<^verbatim>\<open>switchFile\<close>, \<open>now2\<close> when
  the goroutine starts. The file system given is the one the program starts on; \<open>sink\<close>
  is what the diagnostic sink holds already.\<close>

definition New ::
  "('r, 'z) lib \<Rightarrow> string \<Rightarrow> SwitchMode \<Rightarrow> string \<Rightarrow> bool \<Rightarrow> Time \<Rightarrow> Time \<Rightarrow> string list \<Rightarrow> FS
     \<Rightarrow> (error \<times> FS) + ('r, 'z) World" where
  "New lb d switchMode fileType compress now1 now2 sink fs =
     (case statOrMkdir fs d of
        (fs1, Some e) \<Rightarrow> Inl (e, fs1)
      | (fs1, None) \<Rightarrow>
          (let fileType' = gzFileType compress fileType;
               lg = \<lparr>dir = d, logChan = \<lparr>cap = 1000, queue = []\<rparr>, closeChan = False,
                     closeWait = 0, ws = None\<rparr>
           in case switchFile lb now1 switchMode fileType' compress lg fs1 of
                (lg', fs2, Some e) \<Rightarrow> Inl (e, fs2)
              | (lg', fs2, None) \<Rightarrow>
                  Inr \<lparr>fsys = fs2, diag = sink, logger = lg'\<lparr>closeWait := 1\<rparr>,
                       w_switchMode = switchMode, w_fileType = fileType',
                       w_compress = compress, fileTimer = firstTimer switchMode now2,
                       running = True\<rparr>))"

text \<open>How the program can stop abnormally.\<close>

datatype panic =
    PanicError error
  | PanicCloseOfClosedChannel
  | PanicNilDereference
  | PanicNegativeWaitGroup

text \<open>The result of one step: the next state, a call or a \<^verbatim>\<open>select\<close> case that
  cannot proceed in this state, or a panic that ends the process.\<close>

datatype 'w result = Ok 'w | Blocked | Crash panic 'w

text \<open>The deferred function of the goroutine: flush, close the file, \<^verbatim>\<open>Done\<close>. The
  results of \<^verbatim>\<open>Flush\<close> and \<^verbatim>\<open>Close\<close> are dropped.\<close>

definition deferred :: "('r, 'z) lib \<Rightarrow> ('r, 'z) World \<Rightarrow> ('r, 'z) World result" where
  "deferred lb w =
     (case ws (logger w) of
        None \<Rightarrow> Crash PanicNilDereference (w\<lparr>running := False\<rparr>)
      | Some s \<Rightarrow>
          (case fw_Flush lb (out s) (fsys w) of
             (o', fs1, _) \<Rightarrow>
               (case File_Close fs1 (file_fd s) of
                  (fs2, _) \<Rightarrow>
                    (let w' = w\<lparr>fsys := fs2, running := False,
                                 logger := (logger w)\<lparr>ws := Some (s\<lparr>out := o'\<rparr>),
                                                       closeWait := closeWait (logger w) - 1\<rparr>\<rparr>
                     in if closeWait (logger w) = 0 then Crash PanicNegativeWaitGroup w'
                        else Ok w'))))"

text \<open>A panic inside the loop runs the deferred function and then ends the process.\<close>

definition panicking :: "('r, 'z) lib \<Rightarrow> panic \<Rightarrow> ('r, 'z) World \<Rightarrow> ('r, 'z) World result" where
  "panicking lb p w =
     (case deferred lb w of Ok w' \<Rightarrow> Crash p w' | Blocked \<Rightarrow> Crash p w | Crash q w' \<Rightarrow> Crash p w')"

text \<open>The cases of the \<^verbatim>\<open>select\<close> statement. \<^verbatim>\<open>select\<close> takes any case that is ready,
  so a schedule names the case taken; \<open>FileTimer\<close> carries the clock reading
  \<^verbatim>\<open>switchFile\<close> makes.\<close>

datatype event = RecvLog | FlushTick | FileTimer Time | RecvClose

definition worker_step ::
  "('r, 'z) lib \<Rightarrow> event \<Rightarrow> ('r, 'z) World \<Rightarrow> ('r, 'z) World result" where
  "worker_step lb ev w =
     (if \<not> running w then Blocked
      else if fileTimer w = None then panicking lb PanicNilDereference w
      else case ws (logger w) of
        None \<Rightarrow> panicking lb PanicNilDereference w
      | Some s \<Rightarrow>
          (case ev of
             RecvLog \<Rightarrow>
               (case queue (logChan (logger w)) of
                  [] \<Rightarrow> Blocked
                | r # q \<Rightarrow>
                    (case Encode lb s r (fsys w) of
                       (s', fs', x) \<Rightarrow>
                         Ok (w\<lparr>fsys := fs',
                                logger := (logger w)\<lparr>logChan := (logChan (logger w))\<lparr>queue := q\<rparr>,
                                                      ws := Some s'\<rparr>,
                                diag := (case x of
                                           None \<Rightarrow> diag w
                                         | Some e \<Rightarrow> diag w @ [''log failed: '' @ Error e])\<rparr>)))
           | FlushTick \<Rightarrow>
               (case fw_Flush lb (out s) (fsys w) of
                  (o', fs', _) \<Rightarrow>
                    Ok (w\<lparr>fsys := fs', logger := (logger w)\<lparr>ws := Some (s\<lparr>out := o'\<rparr>)\<rparr>\<rparr>))
           | FileTimer now \<Rightarrow>
               (case switchFile lb now (w_switchMode w) (w_fileType w) (w_compress w)
                       (logger w) (fsys w) of
                  (lg', fs', Some e) \<Rightarrow>
                    panicking lb (PanicError e) (w\<lparr>fsys := fs', logger := lg'\<rparr>)
                | (lg', fs', None) \<Rightarrow>
                    Ok (w\<lparr>fsys := fs', logger := lg',
                           fileTimer := nextTimer (w_switchMode w) (fileTimer w)\<rparr>))
           | RecvClose \<Rightarrow>
               (if closeChan (logger w) then deferred lb w else Blocked)))"

subsection \<open>The public interface and the interleaving of callers and worker\<close>

datatype fault = StatFault | MkdirFault | OpenFault | WriteFault | CloseFault

fun set_fault :: "fault \<Rightarrow> error option \<Rightarrow> FS \<Rightarrow> FS" where
  "set_fault StatFault e fs = fs\<lparr>stat_fault := e\<rparr>"
| "set_fault MkdirFault e fs = fs\<lparr>mkdir_fault := e\<rparr>"
| "set_fault OpenFault e fs = fs\<lparr>open_fault := e\<rparr>"
| "set_fault WriteFault e fs = fs\<lparr>write_fault := e\<rparr>"
| "set_fault CloseFault e fs = fs\<lparr>close_fault := e\<rparr>"

text \<open>
  What can happen next in the program: a caller's \<^verbatim>\<open>Log(r)\<close> sends on the channel;
  a caller's \<^verbatim>\<open>Close()\<close> closes \<^verbatim>\<open>closeChan\<close> (\<open>CallClose\<close>) and later returns from
  \<^verbatim>\<open>closeWait.Wait()\<close> (\<open>ReturnClose\<close>); the worker takes one case of its
  \<^verbatim>\<open>select\<close>; the environment makes a file operation fail or work again.
\<close>

datatype 'r action =
    CallLog 'r
  | CallClose
  | ReturnClose
  | Worker event
  | Env fault "error option"

definition Log :: "'r \<Rightarrow> ('r, 'z) World \<Rightarrow> ('r, 'z) World result" where
  "Log r w =
     (let c = logChan (logger w)
      in if length (queue c) < cap c
         then Ok (w\<lparr>logger := (logger w)\<lparr>logChan := c\<lparr>queue := queue c @ [r]\<rparr>\<rparr>\<rparr>)
         else Blocked)"

definition Close_close :: "('r, 'z) World \<Rightarrow> ('r, 'z) World result" where
  "Close_close w =
     (if closeChan (logger w) then Crash PanicCloseOfClosedChannel w
      else Ok (w\<lparr>logger := (logger w)\<lparr>closeChan := True\<rparr>\<rparr>))"

definition Close_wait :: "('r, 'z) World \<Rightarrow> ('r, 'z) World result" where
  "Close_wait w = (if closeWait (logger w) = 0 then Ok w else Blocked)"

fun step :: "('r, 'z) lib \<Rightarrow> 'r action \<Rightarrow> ('r, 'z) World \<Rightarrow> ('r, 'z) World result" where
  "step lb (CallLog r) w = Log r w"
| "step lb CallClose w = Close_close w"
| "step lb ReturnClose w = Close_wait w"
| "step lb (Worker ev) w = worker_step lb ev w"
| "step lb (Env k e) w = Ok (w\<lparr>fsys := set_fault k e (fsys w)\<rparr>)"

text \<open>A schedule is a list of actions; it runs while every action can proceed.\<close>

fun run :: "('r, 'z) lib \<Rightarrow> 'r action list \<Rightarrow> ('r, 'z) World \<Rightarrow> ('r, 'z) World result" where
  "run lb [] w = Ok w"
| "run lb (a # as) w =
     (case step lb a w of Ok w' \<Rightarrow> run lb as w' | Blocked \<Rightarrow> Blocked | Crash p w' \<Rightarrow> Crash p w')"

section \<open>Reference notions the properties are stated with\<close>

subsection \<open>Fixed-width decimal fields\<close>

text \<open>The fields \<^verbatim>\<open>DD\<close>, \<^verbatim>\<open>HH\<close>, \<^verbatim>\<open>MM\<close> and \<^verbatim>\<open>YYYY\<close> of the on-disk layout:
  exactly two and four decimal digits.\<close>

definition two_digits :: "int \<Rightarrow> string" where
  "two_digits x = [digit (nat x div 10), digit (nat x mod 10)]"

definition four_digits :: "int \<Rightarrow> string" where
  "four_digits x =
     [digit (nat x div 1000), digit (nat x div 100 mod 10), digit (nat x div 10 mod 10),
      digit (nat x mod 10)]"

subsection \<open>Concrete inputs\<close>

text \<open>A clock reading: 9 February 2024, 07:30:15.0000005, eight hours east of UTC.\<close>

definition t1 :: Time where
  "t1 = \<lparr>Year = 2024, Month = 2, Day = 9, Hour = 7, Minute = 30, Second = 15,
         Nanosecond = 500, Location = 28800\<rparr>"

text \<open>
  A small serializer and compressor to run the model on. Records are strings that are
  their own JSON text, except \<open>''bad''\<close>, which cannot be marshalled. The compressor
  keeps what it is given until \<^verbatim>\<open>Flush\<close>; it emits a two-byte header on the first
  \<^verbatim>\<open>Write\<close> or \<^verbatim>\<open>Flush\<close> and the pending bytes, unchanged, on \<^verbatim>\<open>Flush\<close>.
\<close>

definition ex_marshal :: "string \<Rightarrow> error + bytes" where
  "ex_marshal r = (if r = ''bad'' then Inl (ErrMarshal ''json: unsupported type'') else Inr r)"

definition ex_header :: "bool \<Rightarrow> bytes list" where
  "ex_header wrote = (if wrote then [] else [''GZ''])"

definition ex_lib :: "(string, bool \<times> bytes) lib" where
  "ex_lib = \<lparr>marshal = ex_marshal,
             gz_new = (False, []),
             gz_write = (\<lambda>(wrote, pending) p. ((True, pending @ p), ex_header wrote)),
             gz_flush = (\<lambda>(wrote, pending). ((True, []), ex_header wrote @ [pending]))\<rparr>"

text \<open>A file system that holds the base directory \<^verbatim>\<open>/tmp/x\<close> and nothing else.\<close>

definition fs0 :: FS where
  "fs0 = \<lparr>dirs = {''/tmp/x''}, files = Map.empty, fds = Map.empty, next_fd = 3,
          stat_fault = None, mkdir_fault = None, open_fault = None, write_fault = None,
          close_fault = None\<rparr>"

text \<open>The program after \<^verbatim>\<open>New("/tmp/x", SWITCH_BY_HOURS, ".log", false)\<close> at \<open>t1\<close> on
  \<open>fs0\<close>: the hour's file is open on descriptor 3 and the timer runs for the 29 minutes
  and 45 seconds (less 500 ns) left in the hour.\<close>

definition ex_plain :: "(string, bool \<times> bytes) World" where
  "ex_plain =
     \<lparr>fsys = fs0\<lparr>dirs := {''/tmp/x/2024-02-09/'', ''/tmp/x''},
                   files := [''/tmp/x/2024-02-09/07.log'' \<mapsto> []],
                   fds := [3 \<mapsto> ''/tmp/x/2024-02-09/07.log''],
                   next_fd := 4\<rparr>,
      diag = [],
      logger = \<lparr>dir = ''/tmp/x'', logChan = \<lparr>cap = 1000, queue = []\<rparr>, closeChan = False,
                 closeWait = 1,
                 ws = Some \<lparr>file_fd = 3, out = Bufio \<lparr>wr = 3, buf = [], err = None\<rparr>,
                            encoder = None\<rparr>\<rparr>,
      w_switchMode = SWITCH_BY_HOURS, w_fileType = ''.log'', w_compress = False,
      fileTimer = Some 1784999999500, running = True\<rparr>"

text \<open>The top of the next hour, and the program after the rotation that fires then.\<close>

definition t2 :: Time where
  "t2 = \<lparr>Year = 2024, Month = 2, Day = 9, Hour = 8, Minute = 0, Second = 0,
         Nanosecond = 0, Location = 28800\<rparr>"

definition ex_rotated :: "(string, bool \<times> bytes) World" where
  "ex_rotated =
     ex_plain\<lparr>fsys := fs0\<lparr>dirs := {''/tmp/x/2024-02-09/'', ''/tmp/x''},
                          files := [''/tmp/x/2024-02-09/07.log'' \<mapsto> [],
                                    ''/tmp/x/2024-02-09/08.log'' \<mapsto> []],
                          fds := [4 \<mapsto> ''/tmp/x/2024-02-09/08.log''],
                          next_fd := 5\<rparr>,
              logger := (logger ex_plain)
                \<lparr>ws := Some \<lparr>file_fd = 4, out = Bufio \<lparr>wr = 4, buf = [], err = None\<rparr>,
                              encoder = None\<rparr>\<rparr>,
              fileTimer := Some 3600000000000\<rparr>"

subsection \<open>Invariants of a running program\<close>

fun writer_fd :: "'z flushWriter \<Rightarrow> nat" where
  "writer_fd (Bufio b) = wr b"
| "writer_fd (Gzip g) = wr (gzw g)"

text \<open>What holds in every state reached from \<^verbatim>\<open>New\<close>: the writer state is set and
  writes to the descriptor in \<^verbatim>\<open>file\<close>, which was handed out earlier; the rotation
  timer is set; the channel has its capacity; and the wait group counts the goroutine
  exactly while it runs.\<close>

definition inv :: "('r, 'z) World \<Rightarrow> bool" where
  "inv w \<longleftrightarrow>
     (\<exists>s. ws (logger w) = Some s \<and> file_fd s < next_fd (fsys w)
          \<and> writer_fd (out s) = file_fd s)
     \<and> fileTimer w \<noteq> None
     \<and> cap (logChan (logger w)) = 1000
     \<and> closeWait (logger w) = (if running w then 1 else 0)"

text \<open>The bytes of a file; a path without a file has none.\<close>

definition content :: "FS \<Rightarrow> string \<Rightarrow> bytes" where
  "content fs p = (case files fs p of None \<Rightarrow> [] | Some c \<Rightarrow> c)"

definition no_faults :: "FS \<Rightarrow> bool" where
  "no_faults fs \<longleftrightarrow>
     stat_fault fs = None \<and> mkdir_fault fs = None \<and> open_fault fs = None
     \<and> write_fault fs = None \<and> close_fault fs = None"

fun is_Env :: "'r action \<Rightarrow> bool" where
  "is_Env (Env k e) = True"
| "is_Env a = False"

text \<open>Without compression and without faults, while the goroutine runs, the writer is a
  \<^verbatim>\<open>bufio.Writer\<close> on the open descriptor with no remembered error.\<close>

definition plain_inv :: "('r, 'z) World \<Rightarrow> bool" where
  "plain_inv w \<longleftrightarrow>
     no_faults (fsys w) \<and> \<not> w_compress w
     \<and> (running w \<longrightarrow>
          (\<exists>s b. ws (logger w) = Some s \<and> out s = Bufio b \<and> wr b = file_fd s
                 \<and> err b = None \<and> encoder s = None
                 \<and> fds (fsys w) (file_fd s) \<noteq> None))"

text \<open>What a file holds once the buffer is written out: its content, followed, for the
  file the running goroutine writes to, by the bytes still in the buffer.\<close>

definition view :: "('r, 'z) World \<Rightarrow> string \<Rightarrow> bytes" where
  "view w p =
     content (fsys w) p @
     (case ws (logger w) of
        None \<Rightarrow> []
      | Some s \<Rightarrow>
          (case out s of
             Bufio b \<Rightarrow> if running w \<and> fds (fsys w) (file_fd s) = Some p then buf b else []
           | Gzip g \<Rightarrow> []))"

subsection \<open>The records the worker received\<close>

text \<open>
  What an action hands to the destination: when the worker takes the record case and the
  record at the head of the queue can be marshalled, the JSON text and a newline, for the
  file that is open at that moment. Every other action hands over nothing.
\<close>

definition emitted :: "('r, 'z) lib \<Rightarrow> 'r action \<Rightarrow> ('r, 'z) World \<Rightarrow> (string \<times> bytes) list" where
  "emitted lb a w =
     (case a of
        Worker RecvLog \<Rightarrow>
          (case (ws (logger w), queue (logChan (logger w))) of
             (Some s, r # q) \<Rightarrow>
               (case (fds (fsys w) (file_fd s), marshal lb r) of
                  (Some p, Inr b) \<Rightarrow> [(p, b @ [CHR 0x0A])]
                | _ \<Rightarrow> [])
           | _ \<Rightarrow> [])
      | _ \<Rightarrow> [])"

text \<open>The same along a schedule, in order.\<close>

fun delivered :: "('r, 'z) lib \<Rightarrow> 'r action list \<Rightarrow> ('r, 'z) World \<Rightarrow> (string \<times> bytes) list" where
  "delivered lb [] w = []"
| "delivered lb (a # as) w =
     (case step lb a w of
        Ok w' \<Rightarrow> emitted lb a w @ delivered lb as w'
      | Blocked \<Rightarrow> []
      | Crash p w' \<Rightarrow> [])"

text \<open>The bytes among them that are for the file at path \<open>p\<close>.\<close>

definition for_path :: "string \<Rightarrow> (string \<times> bytes) list \<Rightarrow> bytes" where
  "for_path p xs = concat (map snd (filter (\<lambda>x. fst x = p) xs))"

text \<open>A file system without the contents of its files: what writing never changes.\<close>

definition meta :: "FS \<Rightarrow> FS" where
  "meta fs = fs\<lparr>files := Map.empty\<rparr>"

subsection \<open>The on-disk layout\<close>

text \<open>The destination path of the layout: \<open>base/YYYY-MM/DD\<close> by day,
  \<open>base/YYYY-MM-DD/HH\<close> by hour, then the suffix, then \<^verbatim>\<open>.gz\<close> with compression.\<close>

definition layout_path :: "string \<Rightarrow> SwitchMode \<Rightarrow> string \<Rightarrow> bool \<Rightarrow> Time \<Rightarrow> string" where
  "layout_path base mode suffix compress now =
     (if mode = SWITCH_BY_DAY
      then base @ ''/'' @ four_digits (Year now) @ ''-'' @ two_digits (Month now) @ ''/''
             @ two_digits (Day now)
      else base @ ''/'' @ four_digits (Year now) @ ''-'' @ two_digits (Month now) @ ''-''
             @ two_digits (Day now) @ ''/'' @ two_digits (Hour now))
     @ suffix @ (if compress then ''.gz'' else [])"

subsection \<open>More concrete inputs\<close>

text \<open>The program after \<^verbatim>\<open>New("/tmp/x", SWITCH_BY_DAY, ".log", true)\<close> at \<open>t1\<close> on
  \<open>fs0\<close>, the next midnight, and the program after the rotation that fires then.\<close>

definition ex_gz :: "(string, bool \<times> bytes) World" where
  "ex_gz =
     \<lparr>fsys = fs0\<lparr>dirs := {''/tmp/x/2024-02/'', ''/tmp/x''},
                   files := [''/tmp/x/2024-02/09.log.gz'' \<mapsto> []],
                   fds := [3 \<mapsto> ''/tmp/x/2024-02/09.log.gz''],
                   next_fd := 4\<rparr>,
      diag = [],
      logger = \<lparr>dir = ''/tmp/x'', logChan = \<lparr>cap = 1000, queue = []\<rparr>, closeChan = False,
                 closeWait = 1,
                 ws = Some \<lparr>file_fd = 3,
                            out = Gzip \<lparr>gzw = \<lparr>wr = 3, buf = [], err = None\<rparr>,
                                        gzst = (False, []), gzerr = None\<rparr>,
                            encoder = None\<rparr>\<rparr>,
      w_switchMode = SWITCH_BY_DAY, w_fileType = ''.log.gz'', w_compress = True,
      fileTimer = Some 59384999999500, running = True\<rparr>"

definition t3 :: Time where
  "t3 = \<lparr>Year = 2024, Month = 2, Day = 10, Hour = 0, Minute = 0, Second = 0,
         Nanosecond = 0, Location = 28800\<rparr>"

definition ex_gz_rotated :: "(string, bool \<times> bytes) World" where
  "ex_gz_rotated =
     ex_gz\<lparr>fsys := fs0\<lparr>dirs := {''/tmp/x/2024-02/'', ''/tmp/x''},
                       files := [''/tmp/x/2024-02/09.log.gz'' \<mapsto> [],
                                 ''/tmp/x/2024-02/10.log.gz'' \<mapsto> []],
                       fds := [4 \<mapsto> ''/tmp/x/2024-02/10.log.gz''],
                       next_fd := 5\<rparr>,
           logger := (logger ex_gz)
             \<lparr>ws := Some \<lparr>file_fd = 4,
                           out = Gzip \<lparr>gzw = \<lparr>wr = 4, buf = [], err = None\<rparr>,
                                       gzst = (False, []), gzerr = None\<rparr>,
                           encoder = None\<rparr>\<rparr>,
           fileTimer := Some 86400000000000\<rparr>"

text \<open>Files only grow at the end: every file of \<open>fs\<close> is still there in \<open>fs'\<close>, with
  its old content as a prefix of the new.\<close>

definition grows :: "FS \<Rightarrow> FS \<Rightarrow> bool" where
  "grows fs fs' \<longleftrightarrow> (\<forall>q c. files fs q = Some c \<longrightarrow> (\<exists>d. files fs' q = Some (c @ d)))"

section \<open>Verified properties\<close>

subsection \<open>Formatting\<close>

lemma digit_0: "digit 0 = CHR ''0''"
  unfolding digit_def by code_simp

lemma itoa_small: "n < 10 \<Longrightarrow> itoa n = [digit n]"
  by (simp add: itoa.simps)

lemma itoa_large: "10 \<le> n \<Longrightarrow> itoa n = itoa (n div 10) @ [digit (n mod 10)]"
  by (subst itoa.simps) simp

lemma itoa_2:
  assumes "n < 100"
  shows "replicate (2 - length (itoa n)) (CHR ''0'') @ itoa n = [digit (n div 10), digit (n mod 10)]"
proof (cases "n < 10")
  case True
  then show ?thesis by (simp add: itoa_small digit_0)
next
  case False
  with assms have "n div 10 < 10" "10 \<le> n" by auto
  then show ?thesis by (simp add: itoa_large itoa_small)
qed

lemma rep3: "replicate 3 x = [x, x, x]"
  by (simp add: numeral_3_eq_3)

lemma rep2: "replicate 2 x = [x, x]"
  by (simp add: numeral_2_eq_2)

lemma itoa_4:
  assumes "n < 10000"
  shows "replicate (4 - length (itoa n)) (CHR ''0'') @ itoa n =
    [digit (n div 1000), digit (n div 100 mod 10), digit (n div 10 mod 10), digit (n mod 10)]"
proof -
  consider "n < 10" | "10 \<le> n" "n < 100" | "100 \<le> n" "n < 1000" | "1000 \<le> n"
    by linarith
  then show ?thesis
  proof cases
    case 1
    then have "itoa n = [digit n]" by (rule itoa_small)
    moreover from 1 have "n div 1000 = 0" "n div 100 = 0" "n div 10 = 0" "n mod 10 = n" by simp_all
    ultimately show ?thesis by (simp add: rep3 digit_0)
  next
    case 2
    then have a: "n div 10 < 10" by simp
    from 2 have "itoa n = itoa (n div 10) @ [digit (n mod 10)]" by (simp add: itoa_large)
    with a have "itoa n = [digit (n div 10), digit (n mod 10)]" by (simp add: itoa_small)
    moreover from 2 a have "n div 1000 = 0" "n div 100 = 0" "n div 10 mod 10 = n div 10" by simp_all
    ultimately show ?thesis by (simp add: rep2 digit_0)
  next
    case 3
    then have a: "n div 100 < 10" "10 \<le> n div 10" "n div 10 div 10 = n div 100" by simp_all
    from 3 have "itoa n = itoa (n div 10) @ [digit (n mod 10)]" by (simp add: itoa_large)
    also from a have "itoa (n div 10) = itoa (n div 100) @ [digit (n div 10 mod 10)]"
      by (simp add: itoa_large)
    also from a have "itoa (n div 100) = [digit (n div 100)]" by (simp add: itoa_small)
    finally have "itoa n = [digit (n div 100), digit (n div 10 mod 10), digit (n mod 10)]" by simp
    moreover from 3 a have "n div 1000 = 0" "n div 100 mod 10 = n div 100" by simp_all
    ultimately show ?thesis by (simp add: digit_0)
  next
    case 4
    with assms have a: "n div 1000 < 10" "10 \<le> n div 100" "10 \<le> n div 10"
      "n div 10 div 10 = n div 100" "n div 100 div 10 = n div 1000" by simp_all
    from 4 have "itoa n = itoa (n div 10) @ [digit (n mod 10)]" by (simp add: itoa_large)
    also from a have "itoa (n div 10) = itoa (n div 100) @ [digit (n div 10 mod 10)]"
      by (simp add: itoa_large)
    also from a have "itoa (n div 100) = itoa (n div 1000) @ [digit (n div 100 mod 10)]"
      by (simp add: itoa_large)
    also from a have "itoa (n div 1000) = [digit (n div 1000)]" by (simp add: itoa_small)
    finally show ?thesis by simp
  qed
qed

lemma Sprintf_02d_two: "0 \<le> x \<Longrightarrow> x \<le> 99 \<Longrightarrow> Sprintf_02d x = two_digits x"
  using itoa_2[of "nat x"] by (simp add: Sprintf_02d_def two_digits_def)

lemma appendInt_two: "0 \<le> x \<Longrightarrow> x \<le> 99 \<Longrightarrow> appendInt x 2 = two_digits x"
  using itoa_2[of "nat x"] by (simp add: appendInt_def two_digits_def)

lemma appendInt_four: "0 \<le> x \<Longrightarrow> x \<le> 9999 \<Longrightarrow> appendInt x 4 = four_digits x"
  using itoa_4[of "nat x"] by (simp add: appendInt_def four_digits_def)

subsection \<open>What the writers leave untouched\<close>

lemma meta_eqD:
  assumes "meta fs' = meta fs"
  shows "dirs fs' = dirs fs" "fds fs' = fds fs" "next_fd fs' = next_fd fs"
    "stat_fault fs' = stat_fault fs" "mkdir_fault fs' = mkdir_fault fs"
    "open_fault fs' = open_fault fs" "write_fault fs' = write_fault fs"
    "close_fault fs' = close_fault fs"
  using assms by (cases fs; cases fs'; simp add: meta_def)+

lemma no_faults_meta: "meta fs' = meta fs \<Longrightarrow> no_faults fs' = no_faults fs"
  using meta_eqD[of fs' fs] by (simp add: no_faults_def)

lemma File_Write_meta: "File_Write fs fd d = (fs', r) \<Longrightarrow> meta fs' = meta fs"
  by (auto simp: File_Write_def meta_def split: option.splits)

lemma bufio_Flush_meta:
  "bufio_Flush b fs = (b', fs', r) \<Longrightarrow> meta fs' = meta fs \<and> wr b' = wr b"
  by (auto simp: bufio_Flush_def split: option.splits if_splits prod.splits dest: File_Write_meta)

lemma bufio_Write_loop_meta:
  "bufio_Write_loop b p fs = (b', p', fs') \<Longrightarrow> meta fs' = meta fs \<and> wr b' = wr b"
proof (induction b p fs rule: bufio_Write_loop.induct)
  case (1 b p fs)
  show ?case
  proof (cases "length p > Available b \<and> err b = None")
    case False
    with "1.prems" show ?thesis by (simp add: bufio_Write_loop.simps)
  next
    case True
    note T = this
    show ?thesis
    proof (cases "buf b = []")
      case True
      obtain fs1 r1 where fw: "File_Write fs (wr b) p = (fs1, r1)" by (cases "File_Write fs (wr b) p")
      from File_Write_meta[OF fw] have m: "meta fs1 = meta fs" .
      show ?thesis
      proof (cases r1)
        case None
        with T True fw "1.prems" have "bufio_Write_loop b [] fs1 = (b', p', fs')"
          by (subst (asm) bufio_Write_loop.simps) simp
        from "1.IH"(1)[OF T True fw[symmetric] None this] m show ?thesis by simp
      next
        case (Some e)
        with T True fw "1.prems" have "bufio_Write_loop (b\<lparr>err := Some e\<rparr>) p fs1 = (b', p', fs')"
          by (subst (asm) bufio_Write_loop.simps) simp
        from "1.IH"(2)[OF T True fw[symmetric] Some this] m show ?thesis by simp
      qed
    next
      case False
      obtain b1 fs1 r1 where fl: "bufio_Flush (b\<lparr>buf := buf b @ take (Available b) p\<rparr>) fs = (b1, fs1, r1)"
        by (cases "bufio_Flush (b\<lparr>buf := buf b @ take (Available b) p\<rparr>) fs") auto
      from bufio_Flush_meta[OF fl] have m: "meta fs1 = meta fs" "wr b1 = wr b" by auto
      from T False fl "1.prems" have "bufio_Write_loop b1 (drop (Available b) p) fs1 = (b', p', fs')"
        by (subst (asm) bufio_Write_loop.simps) simp
      from "1.IH"(3)[OF T False fl[symmetric] refl this] m show ?thesis by simp
    qed
  qed
qed

lemma bufio_Write_meta:
  "bufio_Write b p fs = (b', fs', r) \<Longrightarrow> meta fs' = meta fs \<and> wr b' = wr b"
  by (auto simp: bufio_Write_def split: prod.splits option.splits dest: bufio_Write_loop_meta)

lemma write_chunks_meta:
  "write_chunks b cs fs = (b', fs', r) \<Longrightarrow> meta fs' = meta fs \<and> wr b' = wr b"
proof (induction cs arbitrary: b fs)
  case Nil
  then show ?case by simp
next
  case (Cons c cs)
  obtain b1 fs1 r1 where w: "bufio_Write b c fs = (b1, fs1, r1)"
    by (cases "bufio_Write b c fs") auto
  from bufio_Write_meta[OF w] have m: "meta fs1 = meta fs" "wr b1 = wr b" by auto
  show ?case
  proof (cases r1)
    case None
    with w Cons.prems have "write_chunks b1 cs fs1 = (b', fs', r)" by simp
    from Cons.IH[OF this] m show ?thesis by simp
  next
    case (Some e)
    with w Cons.prems m show ?thesis by simp
  qed
qed

lemma gzip_Write_meta:
  "gzip_Write lb g p fs = (g', fs', r) \<Longrightarrow> meta fs' = meta fs \<and> wr (gzw g') = wr (gzw g)"
proof (cases "gzerr g")
  case (Some e)
  then show "gzip_Write lb g p fs = (g', fs', r) \<Longrightarrow> ?thesis"
    by (simp add: gzip_Write_def)
next
  case None
  assume a: "gzip_Write lb g p fs = (g', fs', r)"
  obtain z cs where z: "gz_write lb (gzst g) p = (z, cs)" by (cases "gz_write lb (gzst g) p")
  obtain b1 fs1 r1 where w: "write_chunks (gzw g) cs fs = (b1, fs1, r1)"
    by (cases "write_chunks (gzw g) cs fs") auto
  from a None z w have "g' = g\<lparr>gzw := b1, gzst := z, gzerr := r1\<rparr>" "fs' = fs1"
    by (auto simp add: gzip_Write_def)
  with write_chunks_meta[OF w] show ?thesis by simp
qed

lemma gzip_Flush_meta:
  "gzip_Flush lb g fs = (g', fs', r) \<Longrightarrow> meta fs' = meta fs \<and> wr (gzw g') = wr (gzw g)"
proof (cases "gzerr g")
  case (Some e)
  then show "gzip_Flush lb g fs = (g', fs', r) \<Longrightarrow> ?thesis"
    by (simp add: gzip_Flush_def)
next
  case None
  assume a: "gzip_Flush lb g fs = (g', fs', r)"
  obtain z cs where z: "gz_flush lb (gzst g) = (z, cs)" by (cases "gz_flush lb (gzst g)")
  obtain b1 fs1 r1 where w: "write_chunks (gzw g) cs fs = (b1, fs1, r1)"
    by (cases "write_chunks (gzw g) cs fs") auto
  from a None z w have "g' = g\<lparr>gzw := b1, gzst := z, gzerr := r1\<rparr>" "fs' = fs1"
    by (auto simp add: gzip_Flush_def)
  with write_chunks_meta[OF w] show ?thesis by simp
qed

lemma fw_Write_meta:
  assumes "fw_Write lb o1 p fs = (o', fs', r)"
  shows "meta fs' = meta fs \<and> writer_fd o' = writer_fd o1"
proof (cases o1)
  case (Bufio b)
  obtain b1 fs1 r1 where w: "bufio_Write b p fs = (b1, fs1, r1)"
    by (cases "bufio_Write b p fs") auto
  with assms Bufio have "o' = Bufio b1" "fs' = fs1" by simp_all
  with bufio_Write_meta[OF w] Bufio show ?thesis by simp
next
  case (Gzip g)
  obtain g1 fs1 r1 where w: "gzip_Write lb g p fs = (g1, fs1, r1)"
    by (cases "gzip_Write lb g p fs") auto
  with assms Gzip have "o' = Gzip g1" "fs' = fs1" by simp_all
  with gzip_Write_meta[OF w] Gzip show ?thesis by simp
qed

lemma fw_Flush_meta:
  assumes "fw_Flush lb o1 fs = (o', fs', r)"
  shows "meta fs' = meta fs \<and> writer_fd o' = writer_fd o1"
proof (cases o1)
  case (Bufio b)
  obtain b1 fs1 r1 where w: "bufio_Flush b fs = (b1, fs1, r1)"
    by (cases "bufio_Flush b fs") auto
  with assms Bufio have "o' = Bufio b1" "fs' = fs1" by simp_all
  with bufio_Flush_meta[OF w] Bufio show ?thesis by simp
next
  case (Gzip g)
  obtain g1 fs1 r1 where w: "gzip_Flush lb g fs = (g1, fs1, r1)"
    by (cases "gzip_Flush lb g fs") auto
  with assms Gzip have "o' = Gzip g1" "fs' = fs1" by simp_all
  with gzip_Flush_meta[OF w] Gzip show ?thesis by simp
qed

lemma Encode_meta:
  assumes "Encode lb s r fs = (s', fs', x)"
  shows "meta fs' = meta fs \<and> writer_fd (out s') = writer_fd (out s) \<and> file_fd s' = file_fd s"
proof (cases "encoder s")
  case (Some e)
  with assms show ?thesis by (simp add: Encode_def)
next
  case None
  note N = this
  show ?thesis
  proof (cases "marshal lb r")
    case (Inl e)
    with assms N show ?thesis by (simp add: Encode_def)
  next
    case (Inr bs)
    obtain o1 fs1 r1 where w: "fw_Write lb (out s) (bs @ [CHR 0x0A]) fs = (o1, fs1, r1)"
      by (cases "fw_Write lb (out s) (bs @ [CHR 0x0A]) fs") auto
    with assms N Inr have "s' = s\<lparr>out := o1, encoder := r1\<rparr>" "fs' = fs1"
      by (auto simp add: Encode_def)
    with fw_Write_meta[OF w] show ?thesis by simp
  qed
qed

subsection \<open>Directories, opening and closing\<close>

lemma statOrMkdir_keeps:
  assumes "statOrMkdir fs d = (fs1, r)"
  shows "files fs1 = files fs" "fds fs1 = fds fs" "next_fd fs1 = next_fd fs"
    "no_faults fs1 = no_faults fs" "open_fault fs1 = open_fault fs"
    "write_fault fs1 = write_fault fs" "close_fault fs1 = close_fault fs"
  using assms
  by (auto simp: statOrMkdir_def os_Mkdir_def no_faults_def
      split: option.splits if_splits)

lemma os_OpenFile_ok:
  assumes "os_OpenFile fs p = (fs2, Inr fd)"
  shows "fd = next_fd fs" "next_fd fs2 = Suc (next_fd fs)" "fds fs2 = (fds fs)(next_fd fs \<mapsto> p)"
    "content fs2 = content fs" "files fs2 p \<noteq> None" "no_faults fs2 = no_faults fs"
    "write_fault fs2 = write_fault fs" "close_fault fs2 = close_fault fs" "p \<noteq> []"
    "\<And>q c. files fs q = Some c \<Longrightarrow> files fs2 q = Some c"
  using assms
  by (auto simp: os_OpenFile_def no_faults_def content_def fun_eq_iff
      split: option.splits if_splits)

lemma File_Close_ok:
  assumes "File_Close fs fd = (fs', r)"
  shows "fds fs' = (fds fs)(fd := None)" "files fs' = files fs" "next_fd fs' = next_fd fs"
    "no_faults fs' = no_faults fs" "content fs' = content fs"
  using assms
  by (auto simp: File_Close_def no_faults_def content_def split: option.splits)

subsection \<open>\<^verbatim>\<open>switchFile\<close>\<close>

lemma switchFile_logger:
  assumes "switchFile lb now mode ft c lg fs = (lg', fs', r)"
  shows "dir lg' = dir lg \<and> logChan lg' = logChan lg \<and> closeChan lg' = closeChan lg
         \<and> closeWait lg' = closeWait lg"
  using assms
  by (auto simp: switchFile_def Let_def split: prod.splits option.splits sum.splits)

lemma switchFile_ok:
  assumes sw: "switchFile lb now mode ft c lg fs = (lg', fs', None)"
    and old: "\<And>s. ws lg = Some s \<Longrightarrow> file_fd s < next_fd fs"
  shows "\<exists>s. ws lg' = Some s \<and> file_fd s = next_fd fs \<and> next_fd fs' = Suc (next_fd fs)
           \<and> fds fs' (file_fd s) = Some (snd (switchNames (dir lg) mode ft now))
           \<and> out s = (if c then Gzip (NewWriterLevel lb (NewWriter (file_fd s)))
                       else Bufio (NewWriter (file_fd s)))
           \<and> encoder s = None"
proof -
  obtain dn fn where nm: "switchNames (dir lg) mode ft now = (dn, fn)"
    by (cases "switchNames (dir lg) mode ft now")
  obtain fs1 r1 where st: "statOrMkdir fs dn = (fs1, r1)" by (cases "statOrMkdir fs dn")
  from sw nm st have r1: "r1 = None"
    by (cases r1) (simp_all add: switchFile_def)
  obtain fs2 x where op: "os_OpenFile fs1 fn = (fs2, x)" by (cases "os_OpenFile fs1 fn")
  from sw nm st r1 op obtain fd where x: "x = Inr fd"
    by (cases x) (simp_all add: switchFile_def)
  note o = os_OpenFile_ok[OF op[unfolded x]] statOrMkdir_keeps[OF st]
  let ?new = "\<lparr>file_fd = fd,
                out = (if c then Gzip (NewWriterLevel lb (NewWriter fd)) else Bufio (NewWriter fd)),
                encoder = None\<rparr>"
  show ?thesis
  proof (cases "ws lg")
    case None
    with sw nm st r1 op x have "lg' = lg\<lparr>ws := Some ?new\<rparr>" "fs' = fs2"
      by (auto simp add: switchFile_def Let_def)
    with o nm show ?thesis by simp
  next
    case (Some olds)
    obtain o' fs3 r3 where fl: "fw_Flush lb (out olds) fs2 = (o', fs3, r3)"
      by (cases "fw_Flush lb (out olds) fs2") auto
    from sw nm st r1 op x Some fl have r3: "r3 = None"
      by (cases r3) (simp_all add: switchFile_def Let_def)
    obtain fs4 r4 where cl: "File_Close fs3 (file_fd olds) = (fs4, r4)"
      by (cases "File_Close fs3 (file_fd olds)")
    from sw nm st r1 op x Some fl r3 cl have r4: "r4 = None"
      by (cases r4) (simp_all add: switchFile_def Let_def)
    from sw nm st r1 op x Some fl r3 cl r4 have res: "lg' = lg\<lparr>ws := Some ?new\<rparr>" "fs' = fs4"
      by (auto simp add: switchFile_def Let_def)
    from fw_Flush_meta[OF fl] have mm: "meta fs3 = meta fs2" by simp
    note m = meta_eqD(2,3)[OF mm]
    from old[OF Some] o have ne: "file_fd olds \<noteq> fd" by simp
    from File_Close_ok[OF cl] m o ne res nm show ?thesis by simp
  qed
qed

subsection \<open>\<^verbatim>\<open>New\<close>\<close>

lemma switchNames_other:
  "mode \<noteq> SWITCH_BY_DAY \<Longrightarrow> mode \<noteq> SWITCH_BY_HOURS \<Longrightarrow> switchNames d mode ft now = ([], [])"
  by (simp add: switchNames_def)

lemma switchFile_mode:
  assumes "switchFile lb now mode ft c lg fs = (lg', fs', None)"
  shows "mode = SWITCH_BY_DAY \<or> mode = SWITCH_BY_HOURS"
proof (rule ccontr)
  assume "\<not> ?thesis"
  then have nm: "switchNames (dir lg) mode ft now = ([], [])" by (simp add: switchNames_other)
  obtain fs1 r1 where st: "statOrMkdir fs [] = (fs1, r1)" by (cases "statOrMkdir fs []")
  from assms nm st have r1: "r1 = None" by (cases r1) (simp_all add: switchFile_def)
  obtain fs2 x where op: "os_OpenFile fs1 [] = (fs2, x)" by (cases "os_OpenFile fs1 []")
  from assms nm st r1 op obtain fd where "x = Inr fd" by (cases x) (simp_all add: switchFile_def)
  with op os_OpenFile_ok(9)[of fs1 "[]" fs2 fd] show False by simp
qed

lemma New_Inr:
  assumes "New lb d mode ft c now1 now2 sink fs = Inr w"
  shows "dir (logger w) = d" "w_switchMode w = mode" "w_fileType w = gzFileType c ft"
    "w_compress w = c" "logChan (logger w) = \<lparr>cap = 1000, queue = []\<rparr>"
    "closeChan (logger w) = False" "closeWait (logger w) = 1" "running w" "diag w = sink"
    "fileTimer w = firstTimer mode now2"
    "\<exists>fs1 lg'. statOrMkdir fs d = (fs1, None)
       \<and> switchFile lb now1 mode (gzFileType c ft) c
             \<lparr>dir = d, logChan = \<lparr>cap = 1000, queue = []\<rparr>, closeChan = False,
              closeWait = 0, ws = None\<rparr> fs1 = (lg', fsys w, None)
       \<and> ws (logger w) = ws lg'"
proof -
  let ?lg = "\<lparr>dir = d, logChan = \<lparr>cap = 1000, queue = []\<rparr>, closeChan = False,
              closeWait = 0, ws = None\<rparr> :: ('a, 'b) L"
  obtain fs1 r1 where st: "statOrMkdir fs d = (fs1, r1)" by (cases "statOrMkdir fs d")
  from assms st have r1: "r1 = None" by (cases r1) (simp_all add: New_def)
  obtain lg' fs2 r2 where sw: "switchFile lb now1 mode (gzFileType c ft) c ?lg fs1 = (lg', fs2, r2)"
    by (cases "switchFile lb now1 mode (gzFileType c ft) c ?lg fs1") auto
  from assms st r1 sw have r2: "r2 = None" by (cases r2) (simp_all add: New_def Let_def)
  from assms st r1 sw r2 have w: "w = \<lparr>fsys = fs2, diag = sink, logger = lg'\<lparr>closeWait := 1\<rparr>,
                       w_switchMode = mode, w_fileType = gzFileType c ft,
                       w_compress = c, fileTimer = firstTimer mode now2,
                       running = True\<rparr>"
    by (simp add: New_def Let_def)
  from switchFile_logger[OF sw] have lg: "dir lg' = d" "logChan lg' = \<lparr>cap = 1000, queue = []\<rparr>"
    "closeChan lg' = False" by simp_all
  from w lg show "dir (logger w) = d" "w_switchMode w = mode" "w_fileType w = gzFileType c ft"
    "w_compress w = c" "logChan (logger w) = \<lparr>cap = 1000, queue = []\<rparr>"
    "closeChan (logger w) = False" "closeWait (logger w) = 1" "running w" "diag w = sink"
    "fileTimer w = firstTimer mode now2" by simp_all
  from w st r1 sw r2 show "\<exists>fs1 lg'. statOrMkdir fs d = (fs1, None)
       \<and> switchFile lb now1 mode (gzFileType c ft) c ?lg fs1 = (lg', fsys w, None)
       \<and> ws (logger w) = ws lg'" by simp
qed

lemma New_mode:
  assumes "New lb d mode ft c now1 now2 sink fs = Inr w"
  shows "mode = SWITCH_BY_DAY \<or> mode = SWITCH_BY_HOURS"
  using New_Inr(11)[OF assms] switchFile_mode by blast

text \<open>After \<^verbatim>\<open>New\<close> the file named by \<^verbatim>\<open>switchFile\<close> is open and a fresh writer
  sits on it.\<close>

lemma New_opens:
  assumes "New lb d mode ft c now1 now2 sink fs = Inr w"
  shows "\<exists>s. ws (logger w) = Some s \<and> file_fd s < next_fd (fsys w)
           \<and> fds (fsys w) (file_fd s) = Some (snd (switchNames d mode (gzFileType c ft) now1))
           \<and> out s = (if c then Gzip (NewWriterLevel lb (NewWriter (file_fd s)))
                       else Bufio (NewWriter (file_fd s)))
           \<and> encoder s = None"
proof -
  from New_Inr(11)[OF assms] obtain fs1 lg' where
    sw: "switchFile lb now1 mode (gzFileType c ft) c
             \<lparr>dir = d, logChan = \<lparr>cap = 1000, queue = []\<rparr>, closeChan = False,
              closeWait = 0, ws = None\<rparr> fs1 = (lg', fsys w, None)"
    and ws: "ws (logger w) = ws lg'" by blast
  from switchFile_ok[OF sw] ws show ?thesis by auto
qed

lemma firstTimer_set:
  "mode = SWITCH_BY_DAY \<or> mode = SWITCH_BY_HOURS \<Longrightarrow> firstTimer mode now \<noteq> None"
  by (auto simp: firstTimer_def)

lemma New_inv:
  assumes "New lb d mode ft c now1 now2 sink fs = Inr w"
  shows "inv w"
proof -
  from New_opens[OF assms] obtain s where s: "ws (logger w) = Some s"
    "file_fd s < next_fd (fsys w)"
    "out s = (if c then Gzip (NewWriterLevel lb (NewWriter (file_fd s)))
                       else Bufio (NewWriter (file_fd s)))" by blast
  then have "writer_fd (out s) = file_fd s" by (simp add: NewWriterLevel_def NewWriter_def)
  with s New_Inr[OF assms] firstTimer_set[OF New_mode[OF assms], of now2]
  show ?thesis by (simp add: inv_def)
qed

subsection \<open>One step and a schedule\<close>

lemma deferred_Ok:
  assumes "deferred lb w = Ok w'"
  shows "\<exists>s o' fs1 r1 fs2 r2. ws (logger w) = Some s
           \<and> fw_Flush lb (out s) (fsys w) = (o', fs1, r1)
           \<and> File_Close fs1 (file_fd s) = (fs2, r2)
           \<and> 0 < closeWait (logger w)
           \<and> w' = w\<lparr>fsys := fs2, running := False,
                      logger := (logger w)\<lparr>ws := Some (s\<lparr>out := o'\<rparr>),
                                            closeWait := closeWait (logger w) - 1\<rparr>\<rparr>"
proof (cases "ws (logger w)")
  case None
  with assms show ?thesis by (simp add: deferred_def)
next
  case (Some s)
  obtain o' fs1 r1 where fl: "fw_Flush lb (out s) (fsys w) = (o', fs1, r1)"
    by (cases "fw_Flush lb (out s) (fsys w)") auto
  obtain fs2 r2 where cl: "File_Close fs1 (file_fd s) = (fs2, r2)"
    by (cases "File_Close fs1 (file_fd s)")
  from assms Some fl cl show ?thesis
    by (cases "closeWait (logger w) = 0") (simp_all add: deferred_def Let_def)
qed

lemma panicking_not_Ok: "panicking lb p w \<noteq> Ok w'"
  by (simp add: panicking_def split: result.splits)

text \<open>The cases of the worker, one lemma each, for a step that succeeds.\<close>

lemma worker_step_Ok:
  assumes "worker_step lb ev w = Ok w'"
  shows "running w \<and> fileTimer w \<noteq> None \<and> (\<exists>s. ws (logger w) = Some s)"
  using assms
  by (cases "running w"; cases "fileTimer w = None"; cases "ws (logger w)")
     (simp_all add: worker_step_def panicking_not_Ok)

lemma worker_RecvLog:
  assumes "worker_step lb RecvLog w = Ok w'" and "ws (logger w) = Some s"
  shows "\<exists>r q s' fs' x. queue (logChan (logger w)) = r # q
           \<and> Encode lb s r (fsys w) = (s', fs', x)
           \<and> w' = w\<lparr>fsys := fs',
                      logger := (logger w)\<lparr>logChan := (logChan (logger w))\<lparr>queue := q\<rparr>,
                                            ws := Some s'\<rparr>,
                      diag := (case x of None \<Rightarrow> diag w
                                | Some e \<Rightarrow> diag w @ [''log failed: '' @ Error e])\<rparr>"
proof -
  from worker_step_Ok[OF assms(1)] have rn: "running w" "fileTimer w \<noteq> None" by simp_all
  show ?thesis
  proof (cases "queue (logChan (logger w))")
    case Nil
    with assms rn show ?thesis by (simp add: worker_step_def)
  next
    case (Cons r q)
    obtain s' fs' x where e: "Encode lb s r (fsys w) = (s', fs', x)"
      by (cases "Encode lb s r (fsys w)") auto
    with assms rn Cons show ?thesis by (simp add: worker_step_def)
  qed
qed

lemma worker_FlushTick:
  assumes "worker_step lb FlushTick w = Ok w'" and "ws (logger w) = Some s"
  shows "\<exists>o' fs' x. fw_Flush lb (out s) (fsys w) = (o', fs', x)
           \<and> w' = w\<lparr>fsys := fs', logger := (logger w)\<lparr>ws := Some (s\<lparr>out := o'\<rparr>)\<rparr>\<rparr>"
proof -
  from worker_step_Ok[OF assms(1)] have rn: "running w" "fileTimer w \<noteq> None" by simp_all
  obtain o' fs' x where e: "fw_Flush lb (out s) (fsys w) = (o', fs', x)"
    by (cases "fw_Flush lb (out s) (fsys w)") auto
  with assms rn show ?thesis by (simp add: worker_step_def)
qed

lemma worker_FileTimer:
  assumes "worker_step lb (FileTimer now) w = Ok w'"
  shows "\<exists>lg' fs'. switchFile lb now (w_switchMode w) (w_fileType w) (w_compress w)
                       (logger w) (fsys w) = (lg', fs', None)
           \<and> w' = w\<lparr>fsys := fs', logger := lg',
                      fileTimer := nextTimer (w_switchMode w) (fileTimer w)\<rparr>"
proof -
  from worker_step_Ok[OF assms(1)] obtain s where rn: "running w" "fileTimer w \<noteq> None"
    "ws (logger w) = Some s" by auto
  obtain lg' fs' x where e: "switchFile lb now (w_switchMode w) (w_fileType w) (w_compress w)
                       (logger w) (fsys w) = (lg', fs', x)"
    by (cases "switchFile lb now (w_switchMode w) (w_fileType w) (w_compress w)
                       (logger w) (fsys w)") auto
  with assms rn show ?thesis by (cases x) (simp_all add: worker_step_def panicking_not_Ok)
qed

lemma worker_RecvClose:
  assumes "worker_step lb RecvClose w = Ok w'"
  shows "closeChan (logger w) \<and> deferred lb w = Ok w'"
proof -
  from worker_step_Ok[OF assms(1)] obtain s where rn: "running w" "fileTimer w \<noteq> None"
    "ws (logger w) = Some s" by auto
  with assms show ?thesis by (cases "closeChan (logger w)") (simp_all add: worker_step_def)
qed

lemma set_fault_keeps:
  "files (set_fault k e fs) = files fs" "fds (set_fault k e fs) = fds fs"
  "next_fd (set_fault k e fs) = next_fd fs" "dirs (set_fault k e fs) = dirs fs"
  by (cases k; simp)+

lemma nextTimer_set: "t \<noteq> None \<Longrightarrow> nextTimer mode t \<noteq> None"
  by (simp add: nextTimer_def)

lemma worker_step_inv:
  assumes i: "inv w" and st: "worker_step lb ev w = Ok w'"
  shows "inv w'"
proof -
  from i obtain s where s: "ws (logger w) = Some s" "file_fd s < next_fd (fsys w)"
    "writer_fd (out s) = file_fd s" and t: "fileTimer w \<noteq> None"
    and c: "cap (logChan (logger w)) = 1000"
    and cw: "closeWait (logger w) = (if running w then 1 else 0)"
    by (auto simp: inv_def)
  from worker_step_Ok[OF st] have rn: "running w" by simp
  show ?thesis
  proof (cases ev)
    case RecvLog
    from worker_RecvLog[OF st[unfolded RecvLog] s(1)] obtain r q s' fs' x where
      e: "Encode lb s r (fsys w) = (s', fs', x)"
      and w': "w' = w\<lparr>fsys := fs',
                      logger := (logger w)\<lparr>logChan := (logChan (logger w))\<lparr>queue := q\<rparr>,
                                            ws := Some s'\<rparr>,
                      diag := (case x of None \<Rightarrow> diag w
                                | Some e \<Rightarrow> diag w @ [''log failed: '' @ Error e])\<rparr>"
      by blast
    from Encode_meta[OF e] have m: "meta fs' = meta (fsys w)"
      "writer_fd (out s') = writer_fd (out s)" "file_fd s' = file_fd s" by simp_all
    from w' m(2,3) meta_eqD(3)[OF m(1)] s t c cw show ?thesis by (simp add: inv_def)
  next
    case FlushTick
    from worker_FlushTick[OF st[unfolded FlushTick] s(1)] obtain o' fs' x where
      e: "fw_Flush lb (out s) (fsys w) = (o', fs', x)"
      and w': "w' = w\<lparr>fsys := fs', logger := (logger w)\<lparr>ws := Some (s\<lparr>out := o'\<rparr>)\<rparr>\<rparr>"
      by blast
    from fw_Flush_meta[OF e] have m: "meta fs' = meta (fsys w)" "writer_fd o' = writer_fd (out s)"
      by simp_all
    from w' m(2) meta_eqD(3)[OF m(1)] s t c cw show ?thesis by (simp add: inv_def)
  next
    case (FileTimer now)
    from worker_FileTimer[OF st[unfolded FileTimer]] obtain lg' fs' where
      sw: "switchFile lb now (w_switchMode w) (w_fileType w) (w_compress w)
                       (logger w) (fsys w) = (lg', fs', None)"
      and w': "w' = w\<lparr>fsys := fs', logger := lg',
                      fileTimer := nextTimer (w_switchMode w) (fileTimer w)\<rparr>" by blast
    from s have old: "\<And>s'. ws (logger w) = Some s' \<Longrightarrow> file_fd s' < next_fd (fsys w)" by simp
    from switchFile_ok[OF sw old] obtain n where n: "ws lg' = Some n"
      "file_fd n = next_fd (fsys w)" "next_fd fs' = Suc (next_fd (fsys w))"
      "out n = (if w_compress w then Gzip (NewWriterLevel lb (NewWriter (file_fd n)))
                       else Bufio (NewWriter (file_fd n)))" by blast
    from n(4) have "writer_fd (out n) = file_fd n" by (simp add: NewWriterLevel_def NewWriter_def)
    with w' n switchFile_logger[OF sw] nextTimer_set[OF t] c cw show ?thesis
      by (simp add: inv_def)
  next
    case RecvClose
    from worker_RecvClose[OF st[unfolded RecvClose]] have d: "deferred lb w = Ok w'" by simp
    from deferred_Ok[OF d] s(1) obtain o' fs1 r1 fs2 r2 where
      fl: "fw_Flush lb (out s) (fsys w) = (o', fs1, r1)"
      and cl: "File_Close fs1 (file_fd s) = (fs2, r2)"
      and w': "w' = w\<lparr>fsys := fs2, running := False,
                      logger := (logger w)\<lparr>ws := Some (s\<lparr>out := o'\<rparr>),
                                            closeWait := closeWait (logger w) - 1\<rparr>\<rparr>"
      by auto
    from fw_Flush_meta[OF fl] have m: "meta fs1 = meta (fsys w)" "writer_fd o' = writer_fd (out s)"
      by simp_all
    from w' m(2) meta_eqD(3)[OF m(1)] File_Close_ok(3)[OF cl] s t c cw rn show ?thesis
      by (simp add: inv_def)
  qed
qed

lemma step_inv:
  assumes "inv w" and "step lb a w = Ok w'"
  shows "inv w'"
proof (cases a)
  case (CallLog r)
  with assms show ?thesis
    by (auto simp: Log_def Let_def inv_def split: if_splits)
next
  case CallClose
  with assms show ?thesis
    by (auto simp: Close_close_def inv_def split: if_splits)
next
  case ReturnClose
  with assms show ?thesis
    by (auto simp: Close_wait_def split: if_splits)
next
  case (Worker ev)
  with assms worker_step_inv show ?thesis by simp
next
  case (Env k e)
  with assms show ?thesis by (auto simp: inv_def set_fault_keeps)
qed

lemma run_inv:
  "inv w \<Longrightarrow> run lb acts w = Ok w' \<Longrightarrow> inv w'"
proof (induction acts arbitrary: w)
  case Nil
  then show ?case by simp
next
  case (Cons a acts)
  then show ?case
    by (cases "step lb a w") (auto dest: step_inv)
qed

text \<open>What no step changes: the configuration the goroutine closed over, the capacity
  of the channel, and that \<^verbatim>\<open>closeChan\<close>, once closed, stays closed.\<close>

lemma worker_step_config:
  assumes st: "worker_step lb ev w = Ok w'"
  shows "dir (logger w') = dir (logger w) \<and> w_switchMode w' = w_switchMode w
         \<and> w_fileType w' = w_fileType w \<and> w_compress w' = w_compress w
         \<and> closeChan (logger w') = closeChan (logger w)"
proof -
  from worker_step_Ok[OF st] obtain s where s: "ws (logger w) = Some s" by auto
  show ?thesis
  proof (cases ev)
    case RecvLog
    from worker_RecvLog[OF st[unfolded RecvLog] s] show ?thesis by auto
  next
    case FlushTick
    from worker_FlushTick[OF st[unfolded FlushTick] s] show ?thesis by auto
  next
    case (FileTimer now)
    from worker_FileTimer[OF st[unfolded FileTimer]] obtain lg' fs' where
      sw: "switchFile lb now (w_switchMode w) (w_fileType w) (w_compress w)
                       (logger w) (fsys w) = (lg', fs', None)"
      and w': "w' = w\<lparr>fsys := fs', logger := lg',
                      fileTimer := nextTimer (w_switchMode w) (fileTimer w)\<rparr>" by blast
    from w' switchFile_logger[OF sw] show ?thesis by simp
  next
    case RecvClose
    from worker_RecvClose[OF st[unfolded RecvClose]] have d: "deferred lb w = Ok w'" by simp
    from deferred_Ok[OF d] show ?thesis by auto
  qed
qed

lemma step_config:
  assumes "step lb a w = Ok w'"
  shows "dir (logger w') = dir (logger w) \<and> w_switchMode w' = w_switchMode w
         \<and> w_fileType w' = w_fileType w \<and> w_compress w' = w_compress w
         \<and> (closeChan (logger w) \<longrightarrow> closeChan (logger w'))"
proof (cases a)
  case (CallLog r)
  with assms show ?thesis by (auto simp: Log_def Let_def split: if_splits)
next
  case CallClose
  with assms show ?thesis by (auto simp: Close_close_def split: if_splits)
next
  case ReturnClose
  with assms show ?thesis by (auto simp: Close_wait_def split: if_splits)
next
  case (Worker ev)
  with assms worker_step_config[of lb ev w w'] show ?thesis by simp
next
  case (Env k e)
  with assms show ?thesis by auto
qed

lemma run_config:
  "run lb acts w = Ok w' \<Longrightarrow>
     dir (logger w') = dir (logger w) \<and> w_switchMode w' = w_switchMode w
     \<and> w_fileType w' = w_fileType w \<and> w_compress w' = w_compress w
     \<and> (closeChan (logger w) \<longrightarrow> closeChan (logger w'))"
proof (induction acts arbitrary: w)
  case Nil
  then show ?case by simp
next
  case (Cons a acts)
  then obtain w1 where s: "step lb a w = Ok w1" and r: "run lb acts w1 = Ok w'"
    by (cases "step lb a w") auto
  from step_config[OF s] Cons.IH[OF r] show ?case by simp
qed

subsection \<open>The concrete inputs, evaluated\<close>

lemma t1_hour_names:
  "switchNames ''/tmp/x'' SWITCH_BY_HOURS ''.log'' t1 =
     (''/tmp/x/2024-02-09/'', ''/tmp/x/2024-02-09/07.log'')"
  unfolding switchNames_def SWITCH_BY_HOURS_def SWITCH_BY_DAY_def Format_2006_01_02_def
    Sprintf_02d_def appendInt_def t1_def digit_def
  by code_simp

lemma t2_hour_names:
  "switchNames ''/tmp/x'' SWITCH_BY_HOURS ''.log'' t2 =
     (''/tmp/x/2024-02-09/'', ''/tmp/x/2024-02-09/08.log'')"
  unfolding switchNames_def SWITCH_BY_HOURS_def SWITCH_BY_DAY_def Format_2006_01_02_def
    Sprintf_02d_def appendInt_def t2_def digit_def
  by code_simp

lemma t1_day_names:
  "switchNames ''/tmp/x'' SWITCH_BY_DAY ''.log.gz'' t1 =
     (''/tmp/x/2024-02/'', ''/tmp/x/2024-02/09.log.gz'')"
  unfolding switchNames_def SWITCH_BY_HOURS_def SWITCH_BY_DAY_def Format_2006_01_def
    Sprintf_02d_def appendInt_def t1_def digit_def
  by code_simp

lemma t3_day_names:
  "switchNames ''/tmp/x'' SWITCH_BY_DAY ''.log.gz'' t3 =
     (''/tmp/x/2024-02/'', ''/tmp/x/2024-02/10.log.gz'')"
  unfolding switchNames_def SWITCH_BY_HOURS_def SWITCH_BY_DAY_def Format_2006_01_def
    Sprintf_02d_def appendInt_def t3_def digit_def
  by code_simp

lemma t1_hour_timer: "firstTimer SWITCH_BY_HOURS t1 = Some 1784999999500"
  unfolding firstTimer_def by code_simp

lemma t1_day_timer: "firstTimer SWITCH_BY_DAY t1 = Some 59384999999500"
  unfolding firstTimer_def by code_simp

lemma nextTimer_values:
  "nextTimer SWITCH_BY_DAY old = Some 86400000000000"
  "nextTimer SWITCH_BY_HOURS old = Some 3600000000000"
  by (simp_all add: nextTimer_def SWITCH_BY_DAY_def SWITCH_BY_HOURS_def time_Hour_def
      time_Second_def)

lemmas fs_defs = statOrMkdir_def os_Stat_def os_Mkdir_def IsNotExist_def os_OpenFile_def
  File_Write_def File_Close_def

lemmas writer_defs = NewWriter_def NewWriterLevel_def bufio_Flush_def gzip_Flush_def
  gzip_Write_def Encode_def

lemma New_plain:
  "New ex_lib ''/tmp/x'' SWITCH_BY_HOURS ''.log'' False t1 t1 [] fs0 = Inr ex_plain"
  by (simp add: New_def fs0_def gzFileType_def switchFile_def t1_hour_names fs_defs
      ex_plain_def NewWriter_def t1_hour_timer insert_commute Let_def)

lemma New_gz:
  "New ex_lib ''/tmp/x'' SWITCH_BY_DAY ''.log'' True t1 t1 [] fs0 = Inr ex_gz"
  by (simp add: New_def fs0_def gzFileType_def switchFile_def t1_day_names fs_defs
      ex_gz_def NewWriter_def NewWriterLevel_def ex_lib_def t1_day_timer insert_commute Let_def)

lemma rotate_plain: "worker_step ex_lib (FileTimer t2) ex_plain = Ok ex_rotated"
  by (simp add: worker_step_def ex_plain_def ex_rotated_def switchFile_def t2_hour_names fs_defs
      fs0_def writer_defs nextTimer_values Let_def fun_upd_twist)

lemma rotate_gz: "worker_step ex_lib (FileTimer t3) ex_gz = Ok ex_gz_rotated"
  by (simp add: worker_step_def ex_gz_def ex_gz_rotated_def switchFile_def t3_day_names fs_defs
      fs0_def writer_defs nextTimer_values Let_def fun_upd_twist ex_lib_def ex_header_def
      bufio_Write_def bufio_Write_loop.simps Available_def defaultBufSize_def)

subsection \<open>Any reflexive and transitive relation that file writes respect\<close>

lemma bufio_Flush_rel:
  assumes rf: "\<And>fs. R fs fs"
    and fw: "\<And>fs fd d fs' r. File_Write fs fd d = (fs', r) \<Longrightarrow> R fs fs'"
    and a: "bufio_Flush b fs = (b', fs', r)"
  shows "R fs fs'"
proof (cases "err b = None \<and> buf b \<noteq> []")
  case False
  with a have "fs' = fs" by (auto simp: bufio_Flush_def split: option.splits)
  with rf show ?thesis by simp
next
  case True
  obtain fs1 r1 where w: "File_Write fs (wr b) (buf b) = (fs1, r1)"
    by (cases "File_Write fs (wr b) (buf b)")
  with a True have "fs' = fs1" by (cases r1) (auto simp: bufio_Flush_def)
  with fw[OF w] show ?thesis by simp
qed

lemma bufio_Write_loop_rel:
  assumes rf: "\<And>fs. R fs fs"
    and tr: "\<And>a b c. R a b \<Longrightarrow> R b c \<Longrightarrow> R a c"
    and fw: "\<And>fs fd d fs' r. File_Write fs fd d = (fs', r) \<Longrightarrow> R fs fs'"
  shows "bufio_Write_loop b p fs = (b', p', fs') \<Longrightarrow> R fs fs'"
proof (induction b p fs rule: bufio_Write_loop.induct)
  case (1 b p fs)
  show ?case
  proof (cases "length p > Available b \<and> err b = None")
    case False
    with "1.prems" have "fs' = fs" by (simp add: bufio_Write_loop.simps)
    with rf show ?thesis by simp
  next
    case True
    note T = this
    show ?thesis
    proof (cases "buf b = []")
      case True
      obtain fs1 r1 where w: "File_Write fs (wr b) p = (fs1, r1)" by (cases "File_Write fs (wr b) p")
      show ?thesis
      proof (cases r1)
        case None
        with T True w "1.prems" have "bufio_Write_loop b [] fs1 = (b', p', fs')"
          by (subst (asm) bufio_Write_loop.simps) simp
        from "1.IH"(1)[OF T True w[symmetric] None this] fw[OF w] show ?thesis by (rule tr[rotated])
      next
        case (Some e)
        with T True w "1.prems" have "bufio_Write_loop (b\<lparr>err := Some e\<rparr>) p fs1 = (b', p', fs')"
          by (subst (asm) bufio_Write_loop.simps) simp
        from "1.IH"(2)[OF T True w[symmetric] Some this] fw[OF w] show ?thesis by (rule tr[rotated])
      qed
    next
      case False
      obtain b1 fs1 r1 where fl: "bufio_Flush (b\<lparr>buf := buf b @ take (Available b) p\<rparr>) fs = (b1, fs1, r1)"
        by (cases "bufio_Flush (b\<lparr>buf := buf b @ take (Available b) p\<rparr>) fs") auto
      from bufio_Flush_rel[of R, OF rf fw fl] have m: "R fs fs1" .
      from T False fl "1.prems" have "bufio_Write_loop b1 (drop (Available b) p) fs1 = (b', p', fs')"
        by (subst (asm) bufio_Write_loop.simps) simp
      from "1.IH"(3)[OF T False fl[symmetric] refl this] m show ?thesis by (rule tr[rotated])
    qed
  qed
qed

lemma bufio_Write_rel:
  assumes rf: "\<And>fs. R fs fs"
    and tr: "\<And>a b c. R a b \<Longrightarrow> R b c \<Longrightarrow> R a c"
    and fw: "\<And>fs fd d fs' r. File_Write fs fd d = (fs', r) \<Longrightarrow> R fs fs'"
    and a: "bufio_Write b p fs = (b', fs', r)"
  shows "R fs fs'"
proof -
  obtain b1 p1 fs1 where l: "bufio_Write_loop b p fs = (b1, p1, fs1)"
    by (cases "bufio_Write_loop b p fs") auto
  with a have "fs' = fs1" by (cases "err b1") (auto simp: bufio_Write_def)
  with bufio_Write_loop_rel[of R, OF rf tr fw l] show ?thesis by simp
qed

lemma write_chunks_rel:
  assumes rf: "\<And>fs. R fs fs"
    and tr: "\<And>a b c. R a b \<Longrightarrow> R b c \<Longrightarrow> R a c"
    and fw: "\<And>fs fd d fs' r. File_Write fs fd d = (fs', r) \<Longrightarrow> R fs fs'"
  shows "write_chunks b cs fs = (b', fs', r) \<Longrightarrow> R fs fs'"
proof (induction cs arbitrary: b fs)
  case Nil
  with rf show ?case by simp
next
  case (Cons c cs)
  obtain b1 fs1 r1 where w: "bufio_Write b c fs = (b1, fs1, r1)"
    by (cases "bufio_Write b c fs") auto
  from bufio_Write_rel[of R, OF rf tr fw w] have m: "R fs fs1" .
  show ?case
  proof (cases r1)
    case None
    with w Cons.prems have "write_chunks b1 cs fs1 = (b', fs', r)" by simp
    from m Cons.IH[OF this] show ?thesis by (rule tr)
  next
    case (Some e)
    with w Cons.prems m show ?thesis by simp
  qed
qed

lemma fw_Write_rel:
  assumes rf: "\<And>fs. R fs fs"
    and tr: "\<And>a b c. R a b \<Longrightarrow> R b c \<Longrightarrow> R a c"
    and fw: "\<And>fs fd d fs' r. File_Write fs fd d = (fs', r) \<Longrightarrow> R fs fs'"
    and a: "fw_Write lb o1 p fs = (o', fs', r)"
  shows "R fs fs'"
proof (cases o1)
  case (Bufio b)
  obtain b1 fs1 r1 where w: "bufio_Write b p fs = (b1, fs1, r1)"
    by (cases "bufio_Write b p fs") auto
  with a Bufio have "fs' = fs1" by simp
  with bufio_Write_rel[of R, OF rf tr fw w] show ?thesis by simp
next
  case (Gzip g)
  show ?thesis
  proof (cases "gzerr g")
    case (Some e)
    with a Gzip have "fs' = fs" by (simp add: gzip_Write_def)
    with rf show ?thesis by simp
  next
    case None
    obtain z cs where z: "gz_write lb (gzst g) p = (z, cs)" by (cases "gz_write lb (gzst g) p")
    obtain b1 fs1 r1 where w: "write_chunks (gzw g) cs fs = (b1, fs1, r1)"
      by (cases "write_chunks (gzw g) cs fs") auto
    from a Gzip None z w have "fs' = fs1" by (simp add: gzip_Write_def)
    with write_chunks_rel[of R, OF rf tr fw w] show ?thesis by simp
  qed
qed

lemma fw_Flush_rel:
  assumes rf: "\<And>fs. R fs fs"
    and tr: "\<And>a b c. R a b \<Longrightarrow> R b c \<Longrightarrow> R a c"
    and fw: "\<And>fs fd d fs' r. File_Write fs fd d = (fs', r) \<Longrightarrow> R fs fs'"
    and a: "fw_Flush lb o1 fs = (o', fs', r)"
  shows "R fs fs'"
proof (cases o1)
  case (Bufio b)
  obtain b1 fs1 r1 where w: "bufio_Flush b fs = (b1, fs1, r1)"
    by (cases "bufio_Flush b fs") auto
  with a Bufio have "fs' = fs1" by simp
  with bufio_Flush_rel[of R, OF rf fw w] show ?thesis by simp
next
  case (Gzip g)
  show ?thesis
  proof (cases "gzerr g")
    case (Some e)
    with a Gzip have "fs' = fs" by (simp add: gzip_Flush_def)
    with rf show ?thesis by simp
  next
    case None
    obtain z cs where z: "gz_flush lb (gzst g) = (z, cs)" by (cases "gz_flush lb (gzst g)")
    obtain b1 fs1 r1 where w: "write_chunks (gzw g) cs fs = (b1, fs1, r1)"
      by (cases "write_chunks (gzw g) cs fs") auto
    from a Gzip None z w have "fs' = fs1" by (simp add: gzip_Flush_def)
    with write_chunks_rel[of R, OF rf tr fw w] show ?thesis by simp
  qed
qed

lemma Encode_rel:
  assumes rf: "\<And>fs. R fs fs"
    and tr: "\<And>a b c. R a b \<Longrightarrow> R b c \<Longrightarrow> R a c"
    and fw: "\<And>fs fd d fs' r. File_Write fs fd d = (fs', r) \<Longrightarrow> R fs fs'"
    and a: "Encode lb s r fs = (s', fs', x)"
  shows "R fs fs'"
proof (cases "encoder s")
  case (Some e)
  with a rf show ?thesis by (simp add: Encode_def)
next
  case None
  note N = this
  show ?thesis
  proof (cases "marshal lb r")
    case (Inl e)
    with a N rf show ?thesis by (simp add: Encode_def)
  next
    case (Inr bs)
    obtain o1 fs1 r1 where w: "fw_Write lb (out s) (bs @ [CHR 0x0A]) fs = (o1, fs1, r1)"
      by (cases "fw_Write lb (out s) (bs @ [CHR 0x0A]) fs") auto
    with a N Inr have "fs' = fs1" by (auto simp add: Encode_def)
    with fw_Write_rel[of R, OF rf tr fw w] show ?thesis by simp
  qed
qed

subsection \<open>Files only grow\<close>

lemma grows_refl: "grows fs fs"
  by (simp add: grows_def)

lemma grows_trans: "grows a b \<Longrightarrow> grows b c \<Longrightarrow> grows a c"
  unfolding grows_def by (metis append.assoc)

lemma File_Write_grows: "File_Write fs fd d = (fs', r) \<Longrightarrow> grows fs fs'"
  by (auto simp: File_Write_def grows_def split: option.splits)

lemma fw_Flush_grows:
  assumes "fw_Flush lb o1 fs = (o', fs', r)"
  shows "grows fs fs'"
  using grows_refl grows_trans File_Write_grows assms by (rule fw_Flush_rel)

lemma Encode_grows:
  assumes "Encode lb s r fs = (s', fs', x)"
  shows "grows fs fs'"
  using grows_refl grows_trans File_Write_grows assms by (rule Encode_rel)

lemma statOrMkdir_grows: "statOrMkdir fs d = (fs', r) \<Longrightarrow> grows fs fs'"
  using statOrMkdir_keeps(1)[of fs d fs' r] by (simp add: grows_def)

lemma os_OpenFile_grows: "os_OpenFile fs p = (fs', x) \<Longrightarrow> grows fs fs'"
  by (auto simp: os_OpenFile_def grows_def split: option.splits if_splits)

lemma File_Close_grows: "File_Close fs fd = (fs', r) \<Longrightarrow> grows fs fs'"
  using File_Close_ok(2)[of fs fd fs' r] by (simp add: grows_def)

lemma switchFile_grows:
  assumes sw: "switchFile lb now mode ft c lg fs = (lg', fs', r)"
  shows "grows fs fs'"
proof -
  obtain dn fn where nm: "switchNames (dir lg) mode ft now = (dn, fn)"
    by (cases "switchNames (dir lg) mode ft now")
  obtain fs1 r1 where st: "statOrMkdir fs dn = (fs1, r1)" by (cases "statOrMkdir fs dn")
  note g1 = statOrMkdir_grows[OF st]
  show ?thesis
  proof (cases r1)
    case (Some e)
    with sw nm st have "fs' = fs1" by (simp add: switchFile_def)
    with g1 show ?thesis by simp
  next
    case None
    note r1 = this
    obtain fs2 x where op: "os_OpenFile fs1 fn = (fs2, x)" by (cases "os_OpenFile fs1 fn")
    from g1 os_OpenFile_grows[OF op] have g2: "grows fs fs2" by (rule grows_trans)
    show ?thesis
    proof (cases x)
      case (Inl e)
      with sw nm st r1 op have "fs' = fs2" by (simp add: switchFile_def)
      with g2 show ?thesis by simp
    next
      case (Inr fd)
      note x = this
      show ?thesis
      proof (cases "ws lg")
        case None
        with sw nm st r1 op x have "fs' = fs2" by (simp add: switchFile_def Let_def)
        with g2 show ?thesis by simp
      next
        case (Some olds)
        obtain o' fs3 r3 where fl: "fw_Flush lb (out olds) fs2 = (o', fs3, r3)"
          by (cases "fw_Flush lb (out olds) fs2") auto
        from g2 fw_Flush_grows[OF fl] have g3: "grows fs fs3" by (rule grows_trans)
        show ?thesis
        proof (cases r3)
          case (Some e)
          with sw nm st r1 op x \<open>ws lg = Some olds\<close> fl have "fs' = fs3"
            by (simp add: switchFile_def Let_def)
          with g3 show ?thesis by simp
        next
          case None
          obtain fs4 r4 where cl: "File_Close fs3 (file_fd olds) = (fs4, r4)"
            by (cases "File_Close fs3 (file_fd olds)")
          from sw nm st r1 op x \<open>ws lg = Some olds\<close> fl None cl have "fs' = fs4"
            by (cases r4) (simp_all add: switchFile_def Let_def)
          with grows_trans[OF g3 File_Close_grows[OF cl]] show ?thesis by simp
        qed
      qed
    qed
  qed
qed

lemma worker_step_grows:
  assumes st: "worker_step lb ev w = Ok w'"
  shows "grows (fsys w) (fsys w')"
proof -
  from worker_step_Ok[OF st] obtain s where s: "ws (logger w) = Some s" by auto
  show ?thesis
  proof (cases ev)
    case RecvLog
    from worker_RecvLog[OF st[unfolded RecvLog] s] obtain r s' fs' x where
      e: "Encode lb s r (fsys w) = (s', fs', x)" and f: "fsys w' = fs'" by auto
    from Encode_grows[OF e] f show ?thesis by simp
  next
    case FlushTick
    from worker_FlushTick[OF st[unfolded FlushTick] s] obtain o' fs' x where
      e: "fw_Flush lb (out s) (fsys w) = (o', fs', x)" and f: "fsys w' = fs'" by auto
    from fw_Flush_grows[OF e] f show ?thesis by simp
  next
    case (FileTimer now)
    from worker_FileTimer[OF st[unfolded FileTimer]] obtain lg' fs' where
      e: "switchFile lb now (w_switchMode w) (w_fileType w) (w_compress w)
                       (logger w) (fsys w) = (lg', fs', None)" and f: "fsys w' = fs'" by auto
    from switchFile_grows[OF e] f show ?thesis by simp
  next
    case RecvClose
    from worker_RecvClose[OF st[unfolded RecvClose]] have d: "deferred lb w = Ok w'" by simp
    from deferred_Ok[OF d] s obtain o' fs1 r1 fs2 r2 where
      fl: "fw_Flush lb (out s) (fsys w) = (o', fs1, r1)"
      and cl: "File_Close fs1 (file_fd s) = (fs2, r2)" and f: "fsys w' = fs2" by auto
    from grows_trans[OF fw_Flush_grows[OF fl] File_Close_grows[OF cl]] f show ?thesis
      by simp
  qed
qed

lemma set_fault_grows: "grows fs (set_fault k e fs)"
  by (simp add: grows_def set_fault_keeps)

lemma step_grows:
  assumes "step lb a w = Ok w'"
  shows "grows (fsys w) (fsys w')"
proof (cases a)
  case (CallLog r)
  with assms show ?thesis by (auto simp: Log_def Let_def grows_refl split: if_splits)
next
  case CallClose
  with assms show ?thesis by (auto simp: Close_close_def grows_refl split: if_splits)
next
  case ReturnClose
  with assms show ?thesis by (auto simp: Close_wait_def grows_refl split: if_splits)
next
  case (Worker ev)
  with assms worker_step_grows show ?thesis by simp
next
  case (Env k e)
  with assms show ?thesis by (auto simp: set_fault_grows)
qed

lemma run_grows: "run lb acts w = Ok w' \<Longrightarrow> grows (fsys w) (fsys w')"
proof (induction acts arbitrary: w)
  case Nil
  then show ?case by (simp add: grows_refl)
next
  case (Cons a acts)
  then obtain w1 where s: "step lb a w = Ok w1" and r: "run lb acts w1 = Ok w'"
    by (cases "step lb a w") auto
  from step_grows[OF s] Cons.IH[OF r] show ?case by (rule grows_trans)
qed

lemma New_grows:
  assumes "New lb d mode ft c now1 now2 sink fs = Inr w"
  shows "grows fs (fsys w)"
proof -
  from New_Inr(11)[OF assms] obtain fs1 lg' where
    a: "statOrMkdir fs d = (fs1, None)"
    and b: "switchFile lb now1 mode (gzFileType c ft) c
             \<lparr>dir = d, logChan = \<lparr>cap = 1000, queue = []\<rparr>, closeChan = False,
              closeWait = 0, ws = None\<rparr> fs1 = (lg', fsys w, None)" by blast
  from statOrMkdir_grows[OF a] switchFile_grows[OF b] show ?thesis by (rule grows_trans)
qed

text \<open>The file \<^verbatim>\<open>switchFile\<close> opened exists afterwards.\<close>

lemma switchFile_creates:
  assumes sw: "switchFile lb now mode ft c lg fs = (lg', fs', None)"
  shows "files fs' (snd (switchNames (dir lg) mode ft now)) \<noteq> None"
proof -
  obtain dn fn where nm: "switchNames (dir lg) mode ft now = (dn, fn)"
    by (cases "switchNames (dir lg) mode ft now")
  obtain fs1 r1 where st: "statOrMkdir fs dn = (fs1, r1)" by (cases "statOrMkdir fs dn")
  from sw nm st have r1: "r1 = None" by (cases r1) (simp_all add: switchFile_def)
  obtain fs2 x where op: "os_OpenFile fs1 fn = (fs2, x)" by (cases "os_OpenFile fs1 fn")
  from sw nm st r1 op obtain fd where x: "x = Inr fd"
    by (cases x) (simp_all add: switchFile_def)
  from os_OpenFile_ok(5)[OF op[unfolded x]] obtain c0 where c0: "files fs2 fn = Some c0" by auto
  have "grows fs2 fs'"
  proof (cases "ws lg")
    case None
    with sw nm st r1 op x have "fs' = fs2" by (simp add: switchFile_def Let_def)
    then show ?thesis by (simp add: grows_refl)
  next
    case (Some olds)
    obtain o' fs3 r3 where fl: "fw_Flush lb (out olds) fs2 = (o', fs3, r3)"
      by (cases "fw_Flush lb (out olds) fs2") auto
    from sw nm st r1 op x Some fl have r3: "r3 = None"
      by (cases r3) (simp_all add: switchFile_def Let_def)
    obtain fs4 r4 where cl: "File_Close fs3 (file_fd olds) = (fs4, r4)"
      by (cases "File_Close fs3 (file_fd olds)")
    from sw nm st r1 op x Some fl r3 cl have "fs' = fs4"
      by (cases r4) (simp_all add: switchFile_def Let_def)
    with grows_trans[OF fw_Flush_grows[OF fl] File_Close_grows[OF cl]] show ?thesis
      by simp
  qed
  with c0 nm show ?thesis by (auto simp: grows_def)
qed

lemma names_layout:
  assumes "valid_Time now" and "mode = SWITCH_BY_DAY \<or> mode = SWITCH_BY_HOURS"
  shows "snd (switchNames base mode (gzFileType compress suffix) now)
           = layout_path base mode suffix compress now"
proof -
  from assms have y: "appendInt (Year now) 4 = four_digits (Year now)"
    by (simp add: valid_Time_def appendInt_four)
  from assms have m: "appendInt (Month now) 2 = two_digits (Month now)"
    by (simp add: valid_Time_def appendInt_two)
  from assms have d: "appendInt (Day now) 2 = two_digits (Day now)"
    by (simp add: valid_Time_def appendInt_two)
  from assms have d': "Sprintf_02d (Day now) = two_digits (Day now)"
    by (simp add: valid_Time_def Sprintf_02d_two)
  from assms have h: "Sprintf_02d (Hour now) = two_digits (Hour now)"
    by (simp add: valid_Time_def Sprintf_02d_two)
  from assms(2) show ?thesis
    by (auto simp add: switchNames_def layout_path_def SWITCH_BY_DAY_def SWITCH_BY_HOURS_def
        Format_2006_01_def Format_2006_01_02_def gzFileType_def y m d d' h)
qed

lemma valid_t: "valid_Time t1" "valid_Time t2" "valid_Time t3"
  by (simp_all add: valid_Time_def t1_def t2_def t3_def)

lemma layout_values:
  "layout_path ''/tmp/x'' SWITCH_BY_HOURS ''.log'' False t1 = ''/tmp/x/2024-02-09/07.log''"
  "layout_path ''/tmp/x'' SWITCH_BY_HOURS ''.log'' False t2 = ''/tmp/x/2024-02-09/08.log''"
  "layout_path ''/tmp/x'' SWITCH_BY_DAY ''.log'' True t1 = ''/tmp/x/2024-02/09.log.gz''"
  "layout_path ''/tmp/x'' SWITCH_BY_DAY ''.log'' True t3 = ''/tmp/x/2024-02/10.log.gz''"
  unfolding layout_path_def four_digits_def two_digits_def digit_def t1_def t2_def t3_def
    SWITCH_BY_DAY_def SWITCH_BY_HOURS_def
  by code_simp+

text \<open>
  Claim C3. The destination file of the logger is at the path of the layout. After
  \<^verbatim>\<open>New(base, mode, suffix, compress)\<close> has succeeded, and again after every rotation
  the worker performs later, the writer writes to an open descriptor whose path is
  \<open>base/YYYY-MM/DD\<close> followed by the suffix under \<open>SWITCH_BY_DAY\<close> and
  \<open>base/YYYY-MM-DD/HH\<close> followed by the suffix under \<open>SWITCH_BY_HOURS\<close>, every field
  with exactly two (the year four) decimal digits of the clock reading taken, with
  \<^verbatim>\<open>.gz\<close> after the suffix when compression is on; and that file exists.
\<close>

theorem destination_naming:
  assumes new: "New lb base mode suffix compress now1 now2 sink fs = Inr w0"
    and run: "run lb acts w0 = Ok w"
    and rot: "worker_step lb (FileTimer now) w = Ok w'"
    and v1: "valid_Time now1" and v: "valid_Time now"
  shows "(mode = SWITCH_BY_DAY \<or> mode = SWITCH_BY_HOURS)
       \<and> (\<exists>s. ws (logger w0) = Some s \<and> writer_fd (out s) = file_fd s
              \<and> fds (fsys w0) (file_fd s) = Some (layout_path base mode suffix compress now1)
              \<and> files (fsys w0) (layout_path base mode suffix compress now1) \<noteq> None)
       \<and> (\<exists>s. ws (logger w') = Some s \<and> writer_fd (out s) = file_fd s
              \<and> fds (fsys w') (file_fd s) = Some (layout_path base mode suffix compress now)
              \<and> files (fsys w') (layout_path base mode suffix compress now) \<noteq> None)"
proof -
  note md = New_mode[OF new]
  note c0 = New_Inr(1-4)[OF new]
  have i0: "inv w0" by (rule New_inv[OF new])
  from New_opens[OF new] obtain s0 where s0: "ws (logger w0) = Some s0"
    "fds (fsys w0) (file_fd s0) = Some (snd (switchNames base mode (gzFileType compress suffix) now1))"
    by blast
  from i0 s0(1) have wf0: "writer_fd (out s0) = file_fd s0" by (auto simp: inv_def)
  from New_Inr(11)[OF new] obtain fs1 lg1 where
    sw0: "switchFile lb now1 mode (gzFileType compress suffix) compress
             \<lparr>dir = base, logChan = \<lparr>cap = 1000, queue = []\<rparr>, closeChan = False,
              closeWait = 0, ws = None\<rparr> fs1 = (lg1, fsys w0, None)" by blast
  from switchFile_creates[OF sw0]
  have ex0: "files (fsys w0) (snd (switchNames base mode (gzFileType compress suffix) now1)) \<noteq> None"
    by simp
  have first: "\<exists>s. ws (logger w0) = Some s \<and> writer_fd (out s) = file_fd s
              \<and> fds (fsys w0) (file_fd s) = Some (layout_path base mode suffix compress now1)
              \<and> files (fsys w0) (layout_path base mode suffix compress now1) \<noteq> None"
    using s0 wf0 ex0 names_layout[OF v1 md, of base compress suffix] by simp
  from run_config[OF run] c0 have c: "dir (logger w) = base" "w_switchMode w = mode"
    "w_fileType w = gzFileType compress suffix" "w_compress w = compress" by simp_all
  have i: "inv w" by (rule run_inv[OF i0 run])
  from worker_FileTimer[OF rot] c obtain lg' fs' where
    sw: "switchFile lb now mode (gzFileType compress suffix) compress (logger w) (fsys w)
           = (lg', fs', None)"
    and w': "w' = w\<lparr>fsys := fs', logger := lg',
                      fileTimer := nextTimer (w_switchMode w) (fileTimer w)\<rparr>" by auto
  from i have old: "\<And>s'. ws (logger w) = Some s' \<Longrightarrow> file_fd s' < next_fd (fsys w)"
    by (auto simp: inv_def)
  from switchFile_ok[OF sw old] c(1) obtain s where s: "ws lg' = Some s"
    "fds fs' (file_fd s) = Some (snd (switchNames base mode (gzFileType compress suffix) now))"
    by auto
  have "inv w'" using worker_step_inv[OF i rot] .
  with w' s(1) have wf: "writer_fd (out s) = file_fd s" by (auto simp: inv_def)
  from switchFile_creates[OF sw] c(1)
  have ex: "files fs' (snd (switchNames base mode (gzFileType compress suffix) now)) \<noteq> None"
    by simp
  have second: "\<exists>s. ws (logger w') = Some s \<and> writer_fd (out s) = file_fd s
              \<and> fds (fsys w') (file_fd s) = Some (layout_path base mode suffix compress now)
              \<and> files (fsys w') (layout_path base mode suffix compress now) \<noteq> None"
    using s wf ex w' names_layout[OF v md, of base compress suffix] by simp
  from md first second show ?thesis by blast
qed

theorem destination_naming_witness:
  "New ex_lib ''/tmp/x'' SWITCH_BY_HOURS ''.log'' False t1 t1 [] fs0 = Inr ex_plain
   \<and> run ex_lib [] ex_plain = Ok ex_plain
   \<and> worker_step ex_lib (FileTimer t2) ex_plain = Ok ex_rotated
   \<and> valid_Time t1 \<and> valid_Time t2
   \<and> fds (fsys ex_plain) 3 = Some ''/tmp/x/2024-02-09/07.log''
   \<and> fds (fsys ex_rotated) 4 = Some ''/tmp/x/2024-02-09/08.log''
   \<and> New ex_lib ''/tmp/x'' SWITCH_BY_DAY ''.log'' True t1 t1 [] fs0 = Inr ex_gz
   \<and> run ex_lib [] ex_gz = Ok ex_gz
   \<and> worker_step ex_lib (FileTimer t3) ex_gz = Ok ex_gz_rotated
   \<and> valid_Time t3
   \<and> fds (fsys ex_gz) 3 = Some ''/tmp/x/2024-02/09.log.gz''
   \<and> fds (fsys ex_gz_rotated) 4 = Some ''/tmp/x/2024-02/10.log.gz''"
proof -
  have r1: "run ex_lib [] ex_plain = Ok ex_plain" and r2: "run ex_lib [] ex_gz = Ok ex_gz"
    by simp_all
  have a: "ws (logger ex_plain) = Some \<lparr>file_fd = 3, out = Bufio \<lparr>wr = 3, buf = [], err = None\<rparr>,
                            encoder = None\<rparr>"
    by (simp add: ex_plain_def)
  have b: "ws (logger ex_rotated) = Some \<lparr>file_fd = 4, out = Bufio \<lparr>wr = 4, buf = [], err = None\<rparr>,
                            encoder = None\<rparr>"
    by (simp add: ex_rotated_def)
  have c: "ws (logger ex_gz) = Some \<lparr>file_fd = 3,
                            out = Gzip \<lparr>gzw = \<lparr>wr = 3, buf = [], err = None\<rparr>,
                                        gzst = (False, []), gzerr = None\<rparr>,
                            encoder = None\<rparr>"
    by (simp add: ex_gz_def)
  have d: "ws (logger ex_gz_rotated) = Some \<lparr>file_fd = 4,
                           out = Gzip \<lparr>gzw = \<lparr>wr = 4, buf = [], err = None\<rparr>,
                                       gzst = (False, []), gzerr = None\<rparr>,
                           encoder = None\<rparr>"
    by (simp add: ex_gz_rotated_def)
  from destination_naming [OF New_plain r1 rotate_plain valid_t(1) valid_t(2)]
  have p: "fds (fsys ex_plain) 3 = Some ''/tmp/x/2024-02-09/07.log''"
       "fds (fsys ex_rotated) 4 = Some ''/tmp/x/2024-02-09/08.log''"
    by (auto simp: a b layout_values)
  from destination_naming [OF New_gz r2 rotate_gz valid_t(1) valid_t(3)]
  have g: "fds (fsys ex_gz) 3 = Some ''/tmp/x/2024-02/09.log.gz''"
       "fds (fsys ex_gz_rotated) 4 = Some ''/tmp/x/2024-02/10.log.gz''"
    by (auto simp: c d layout_values)
  from p g New_plain New_gz r1 r2 rotate_plain rotate_gz valid_t show ?thesis by simp
qed

end
